(* ===== verification/Prelude.thy ===== *)
theory Prelude
  imports Main "HOL-Library.Word" "HOL-Library.AList" "HOL-Library.Monad_Syntax"
    "HOL-Library.Sublist"
begin

section \<open>Prelude\<close>

text \<open>
  What every component of the proxy shares: the names of the machine types of the
  C++ sources, the fact collections the proofs are driven by, lemmas on association
  lists (the model of \<^verbatim>\<open>std::unordered_map\<close> and of node lists addressed by iterators),
  the substring search \<^verbatim>\<open>std::string::find\<close>, decimal text (\<^verbatim>\<open>std::to_string\<close>), and reachability of a step relation with
  the invariant rule as a locale.

  Conventions of the development:
  \<^item> a byte is a \<^typ>\<open>char\<close>; \<^verbatim>\<open>std::string\<close> and \<^verbatim>\<open>std::vector<char>\<close> are \<^typ>\<open>string\<close>;
  \<^item> \<^verbatim>\<open>size_t\<close>, \<^verbatim>\<open>unsigned short\<close> and \<^verbatim>\<open>short\<close> are words of their width;
  \<^item> an operation that can run into undefined behaviour returns an \<open>option\<close>, and
    \<open>None\<close> is the undefined behaviour;
  \<^item> a C++ exception is the left side of a sum and keeps the state it left behind.
\<close>

type_synonym size_t = "64 word"
type_synonym u16 = "16 word"
type_synonym byte = "8 word"

named_theorems inv_defs \<open>definitions of the component invariants\<close>
named_theorems op_defs \<open>definitions of the operations of the components\<close>
named_theorems inv_intros \<open>operations keep the component invariants\<close>

subsection \<open>Association lists\<close>

lemma map_of_filter_neq [simp]:
  "map_of (filter (\<lambda>p. fst p \<noteq> k) xs) = (map_of xs)(k := None)"
  by (induction xs) auto

lemma distinct_fst_filter:
  "distinct (map f xs) \<Longrightarrow> distinct (map f (filter P xs))"
  by (rule distinct_map_filter)

lemma length_filter_fst_neq:
  assumes "distinct (map fst xs)" and "k \<in> fst ` set xs"
  shows "Suc (length (filter (\<lambda>p. fst p \<noteq> k) xs)) = length xs"
  using assms
proof (induction xs)
  case (Cons x xs)
  show ?case
  proof (cases "fst x = k")
    case True
    with Cons.prems have "filter (\<lambda>p. fst p \<noteq> k) xs = xs"
      by (intro filter_True) (auto simp: image_iff)
    with True show ?thesis by simp
  next
    case False
    with Cons show ?thesis by auto
  qed
qed simp

lemma map_of_SomeI:
  "distinct (map fst xs) \<Longrightarrow> (k, v) \<in> set xs \<Longrightarrow> map_of xs k = Some v"
  by simp

lemma alist_update_list:
  assumes "map_of xs k = Some v" and "distinct (map fst xs)"
  shows "AList.update k w xs = map (\<lambda>(i, x). if i = k then (i, w) else (i, x)) xs"
  using assms
proof (induction xs)
  case (Cons x xs)
  obtain i y where x: "x = (i, y)" by (cases x)
  show ?case
  proof (cases "i = k")
    case True
    with Cons.prems x have "\<forall>p \<in> set xs. fst p \<noteq> k" by (auto simp: image_iff)
    then have "map (\<lambda>(i, x). if i = k then (i, w) else (i, x)) xs = xs"
      by (intro map_idI) auto
    with True x show ?thesis by simp
  next
    case False
    with Cons x show ?thesis by simp
  qed
qed simp

lemma filter_alist_update:
  "filter (\<lambda>p. fst p \<noteq> k) (AList.update k v xs) = filter (\<lambda>p. fst p \<noteq> k) xs"
  by (induction xs) auto

subsection \<open>Substring search\<close>

text \<open>\<^verbatim>\<open>s.find(pat) != std::string::npos\<close>\<close>

fun str_contains :: "string \<Rightarrow> string \<Rightarrow> bool" where
  "str_contains pat [] = (pat = [])"
| "str_contains pat (c # cs) =
     (take (length pat) (c # cs) = pat \<or> str_contains pat cs)"

lemma str_contains_iff: "str_contains pat s \<longleftrightarrow> (\<exists>u v. s = u @ pat @ v)"
proof (induction s)
  case Nil
  then show ?case by simp
next
  case (Cons c cs)
  have split: "(\<exists>u v. c # cs = u @ pat @ v) \<longleftrightarrow>
      (\<exists>v. c # cs = pat @ v) \<or> (\<exists>u v. cs = u @ pat @ v)" (is "?l = ?r")
  proof
    assume ?l
    then obtain u v where uv: "c # cs = u @ pat @ v" by blast
    then show ?r by (cases u) auto
  next
    assume ?r
    then show ?l by (metis append_Cons append_Nil)
  qed
  have "take (length pat) (c # cs) = pat \<longleftrightarrow> (\<exists>v. c # cs = pat @ v)"
    by (metis append_eq_conv_conj append_take_drop_id)
  with Cons.IH split show ?case by simp
qed

subsection \<open>Numbers as text\<close>

fun dec_nat :: "nat \<Rightarrow> string" where
  "dec_nat n = (if n < 10 then [''0123456789'' ! n] else dec_nat (n div 10) @ [''0123456789'' ! (n mod 10)])"

declare dec_nat.simps [simp del]

text \<open>\<^verbatim>\<open>std::to_string\<close> of a signed integer.\<close>

definition to_string :: "int \<Rightarrow> string" where
  "to_string i = (if i < 0 then CHR ''-'' # dec_nat (nat (- i)) else dec_nat (nat i))"

text \<open>Reading the digits back gives the number.\<close>

definition dec_value :: "string \<Rightarrow> nat" where
  "dec_value ds = foldl (\<lambda>a c. 10 * a + (of_char c - 48)) 0 ds"

lemma dec_nat_value: "dec_value (dec_nat n) = n"
proof (induction n rule: dec_nat.induct)
  case (1 n)
  have digit: "of_char (''0123456789'' ! d) - 48 = d" if "d < 10" for d :: nat
  proof -
    from that have "d \<in> {0, 1, 2, 3, 4, 5, 6, 7, 8, 9}" by auto
    then show ?thesis by auto
  qed
  show ?case
  proof (cases "n < 10")
    case True
    then show ?thesis by (subst dec_nat.simps) (simp add: dec_value_def digit)
  next
    case False
    have "dec_value (dec_nat n) = 10 * dec_value (dec_nat (n div 10)) + n mod 10"
      by (subst dec_nat.simps) (simp add: False dec_value_def digit)
    with 1 False show ?thesis by simp
  qed
qed

lemma sint_u16: "sint (p :: u16) = (if unat p < 32768 then int (unat p) else int (unat p) - 65536)"
proof -
  have "sint p = (uint p + 2 ^ 15) mod 2 ^ 16 - 2 ^ 15"
    by (simp add: sint_uint signed_take_bit_eq_take_bit_shift take_bit_eq_mod)
  moreover have "uint p < 65536" "0 \<le> uint p" using uint_bounded[of p] by simp_all
  moreover have "(x + 32768) mod 65536 - 32768 = (if x < 32768 then x else x - 65536)"
    if "0 \<le> x" "x < 65536" for x :: int
    using that mod_add_self2[of "x - 32768" 65536] by (cases "x < 32768") (simp_all add: add.commute)
  moreover have u: "int (unat p) = uint p" by simp
  moreover have "unat p < 32768 \<longleftrightarrow> uint p < 32768" using u by linarith
  ultimately show ?thesis by simp
qed

subsection \<open>Reachability and invariants\<close>

inductive reachable :: "('s \<Rightarrow> bool) \<Rightarrow> ('s \<Rightarrow> 's \<Rightarrow> bool) \<Rightarrow> 's \<Rightarrow> bool"
  for start step where
  reachable_start: "start s \<Longrightarrow> reachable start step s"
| reachable_step: "reachable start step s \<Longrightarrow> step s t \<Longrightarrow> reachable start step t"

locale invariant =
  fixes start :: "'s \<Rightarrow> bool" and step :: "'s \<Rightarrow> 's \<Rightarrow> bool" and inv :: "'s \<Rightarrow> bool"
  assumes inv_start: "start s \<Longrightarrow> inv s"
    and inv_step: "inv s \<Longrightarrow> step s t \<Longrightarrow> inv t"
begin

lemma reachable_inv: "reachable start step s \<Longrightarrow> inv s"
  by (induction rule: reachable.induct) (auto intro: inv_start inv_step)

lemma rtranclp_inv: "step\<^sup>*\<^sup>* s t \<Longrightarrow> inv s \<Longrightarrow> inv t"
  by (induction rule: rtranclp_induct) (auto intro: inv_step)

end

lemma reachable_rtranclp:
  "step\<^sup>*\<^sup>* s t \<Longrightarrow> reachable start step s \<Longrightarrow> reachable start step t"
  by (induction rule: rtranclp_induct) (auto intro: reachable_step)

end
