(* ===== verification/Config_Model.thy ===== *)
theory Config_Model
  imports Prelude
begin

section \<open>Config\<close>

text \<open>
  The class \<^verbatim>\<open>Config\<close> of \<^verbatim>\<open>src/src/Config\<close>. The library yaml-cpp is a parameter: loading a file or a
  text, indexing a node, and the typed conversions \<^verbatim>\<open>as<T>\<close>. Indexing gives a node that is
  defined or not (\<^verbatim>\<open>if (node)\<close>) or throws, a conversion gives a value or throws. The setters of \<^verbatim>\<open>parseYaml\<close> run one after
  the other and an exception leaves the members that were already set.
\<close>

subsection \<open>State\<close>

datatype exn = YamlException string | StdException string

datatype load_error = BadFile | ParseError string

record 'n yaml =
  LoadFile :: "string \<Rightarrow> load_error + 'n"
  Load :: "string \<Rightarrow> string + 'n"
  index :: "'n \<Rightarrow> string \<Rightarrow> exn + 'n option"
  as_string :: "'n \<Rightarrow> exn + string"
  as_ushort :: "'n \<Rightarrow> exn + u16"
  as_uint :: "'n \<Rightarrow> exn + 32 word"
  as_size_t :: "'n \<Rightarrow> exn + size_t"
  as_int :: "'n \<Rightarrow> exn + int"
  as_bool :: "'n \<Rightarrow> exn + bool"

record Config =
  cfg_listen_port :: u16
  cfg_listen_address :: string
  cfg_num_threads :: "32 word"
  cfg_db_host :: string
  cfg_db_port :: u16
  cfg_pool_min_size :: size_t
  cfg_pool_max_size :: size_t
  cfg_pool_idle_timeout_seconds :: size_t
  cfg_l1_max_size :: size_t
  cfg_l1_enabled :: bool
  cfg_redis_enabled :: bool
  cfg_redis_host :: string
  cfg_redis_port :: int
  cfg_redis_timeout_ms :: int
  cfg_log_level :: string
  cfg_log_pattern :: string
  cfg_ssl_enabled :: bool
  cfg_valid :: bool
  cfg_error_message :: string

definition setDefaults :: "Config \<Rightarrow> Config" where
  "setDefaults c = c\<lparr>cfg_valid := True\<rparr>"

text \<open>The member initialisers, then the constructor.\<close>

definition Config_init :: Config where
  "Config_init = setDefaults
     \<lparr>cfg_listen_port = 6000, cfg_listen_address = ''0.0.0.0'', cfg_num_threads = 4,
      cfg_db_host = ''127.0.0.1'', cfg_db_port = 5432, cfg_pool_min_size = 5, cfg_pool_max_size = 20,
      cfg_pool_idle_timeout_seconds = 300, cfg_l1_max_size = 1000, cfg_l1_enabled = True,
      cfg_redis_enabled = False, cfg_redis_host = ''127.0.0.1'', cfg_redis_port = 6379,
      cfg_redis_timeout_ms = 1000, cfg_log_level = ''info'',
      cfg_log_pattern = ''[%Y-%m-%d %H:%M:%S.%e] [%^%l%$] %v'', cfg_ssl_enabled = True,
      cfg_valid = False, cfg_error_message = []\<rparr>"

subsection \<open>Reading the sections\<close>

type_synonym setter = "Config \<Rightarrow> (exn + unit) \<times> Config"

definition nothing :: setter where "nothing c = (Inr (), c)"

definition followed_by :: "setter \<Rightarrow> setter \<Rightarrow> setter" where
  "followed_by f g c = (case f c of (Inl e, c') \<Rightarrow> (Inl e, c') | (Inr _, c') \<Rightarrow> g c')"

definition all_of :: "setter list \<Rightarrow> setter" where
  "all_of fs = foldr followed_by fs nothing"

text \<open>\<^verbatim>\<open>if (node[key]) { const auto& sub = node[key]; ... }\<close>\<close>

definition with_section :: "'n yaml \<Rightarrow> 'n \<Rightarrow> string \<Rightarrow> ('n \<Rightarrow> setter) \<Rightarrow> setter" where
  "with_section y node key body c =
     (case index y node key of
        Inl e \<Rightarrow> (Inl e, c)
      | Inr None \<Rightarrow> (Inr (), c)
      | Inr (Some sub) \<Rightarrow> body sub c)"

text \<open>\<^verbatim>\<open>if (node[key]) { member = node[key].as<T>(); }\<close>\<close>

definition field :: "'n yaml \<Rightarrow> 'n \<Rightarrow> string \<Rightarrow> ('n \<Rightarrow> exn + 'a) \<Rightarrow> ('a \<Rightarrow> Config \<Rightarrow> Config) \<Rightarrow> setter" where
  "field y node key conv set_member = with_section y node key (\<lambda>sub c.
     case conv sub of Inl e \<Rightarrow> (Inl e, c) | Inr v \<Rightarrow> (Inr (), set_member v c))"

definition parse_server :: "'n yaml \<Rightarrow> 'n \<Rightarrow> setter" where
  "parse_server y config = with_section y config ''server'' (\<lambda>server. all_of
     [field y server ''listen_port'' (as_ushort y) (\<lambda>v c. c\<lparr>cfg_listen_port := v\<rparr>),
      field y server ''listen_address'' (as_string y) (\<lambda>v c. c\<lparr>cfg_listen_address := v\<rparr>),
      field y server ''num_threads'' (as_uint y) (\<lambda>v c. c\<lparr>cfg_num_threads := v\<rparr>)])"

definition parse_database :: "'n yaml \<Rightarrow> 'n \<Rightarrow> setter" where
  "parse_database y config = with_section y config ''database'' (\<lambda>db. all_of
     [field y db ''host'' (as_string y) (\<lambda>v c. c\<lparr>cfg_db_host := v\<rparr>),
      field y db ''port'' (as_ushort y) (\<lambda>v c. c\<lparr>cfg_db_port := v\<rparr>),
      with_section y db ''pool'' (\<lambda>pool. all_of
        [field y pool ''min_size'' (as_size_t y) (\<lambda>v c. c\<lparr>cfg_pool_min_size := v\<rparr>),
         field y pool ''max_size'' (as_size_t y) (\<lambda>v c. c\<lparr>cfg_pool_max_size := v\<rparr>),
         field y pool ''idle_timeout_seconds'' (as_size_t y) (\<lambda>v c. c\<lparr>cfg_pool_idle_timeout_seconds := v\<rparr>)])])"

definition parse_cache :: "'n yaml \<Rightarrow> 'n \<Rightarrow> setter" where
  "parse_cache y config = with_section y config ''cache'' (\<lambda>cache. all_of
     [with_section y cache ''l1'' (\<lambda>l1. all_of
        [field y l1 ''max_size'' (as_size_t y) (\<lambda>v c. c\<lparr>cfg_l1_max_size := v\<rparr>),
         field y l1 ''enabled'' (as_bool y) (\<lambda>v c. c\<lparr>cfg_l1_enabled := v\<rparr>)]),
      with_section y cache ''l2'' (\<lambda>l2. with_section y l2 ''redis'' (\<lambda>redis. all_of
        [field y redis ''enabled'' (as_bool y) (\<lambda>v c. c\<lparr>cfg_redis_enabled := v\<rparr>),
         field y redis ''host'' (as_string y) (\<lambda>v c. c\<lparr>cfg_redis_host := v\<rparr>),
         field y redis ''port'' (as_int y) (\<lambda>v c. c\<lparr>cfg_redis_port := v\<rparr>),
         field y redis ''timeout_ms'' (as_int y) (\<lambda>v c. c\<lparr>cfg_redis_timeout_ms := v\<rparr>)]))])"

definition parse_logging :: "'n yaml \<Rightarrow> 'n \<Rightarrow> setter" where
  "parse_logging y config = with_section y config ''logging'' (\<lambda>logging. all_of
     [field y logging ''level'' (as_string y) (\<lambda>v c. c\<lparr>cfg_log_level := v\<rparr>),
      field y logging ''pattern'' (as_string y) (\<lambda>v c. c\<lparr>cfg_log_pattern := v\<rparr>)])"

definition parse_ssl :: "'n yaml \<Rightarrow> 'n \<Rightarrow> setter" where
  "parse_ssl y config = with_section y config ''ssl'' (\<lambda>ssl.
     field y ssl ''enabled'' (as_bool y) (\<lambda>v c. c\<lparr>cfg_ssl_enabled := v\<rparr>))"

definition parseYaml :: "'n yaml \<Rightarrow> 'n \<Rightarrow> Config \<Rightarrow> bool \<times> Config" where
  "parseYaml y config c =
     (case all_of [parse_server y config, parse_database y config, parse_cache y config,
                   parse_logging y config, parse_ssl y config] c of
        (Inr _, c') \<Rightarrow> (True, c'\<lparr>cfg_valid := True, cfg_error_message := []\<rparr>)
      | (Inl (YamlException e), c') \<Rightarrow> (False, c'\<lparr>cfg_error_message := ''YAML parse error: '' @ e, cfg_valid := False\<rparr>)
      | (Inl (StdException e), c') \<Rightarrow> (False, c'\<lparr>cfg_error_message := ''Config error: '' @ e, cfg_valid := False\<rparr>))"

definition loadFromFile :: "'n yaml \<Rightarrow> string \<Rightarrow> Config \<Rightarrow> bool \<times> Config" where
  "loadFromFile y config_path c =
     (case LoadFile y config_path of
        Inr config_node \<Rightarrow> parseYaml y config_node c
      | Inl BadFile \<Rightarrow> (True, setDefaults c)
      | Inl (ParseError e) \<Rightarrow> (False, c\<lparr>cfg_error_message := ''YAML parse error: '' @ e, cfg_valid := False\<rparr>))"

definition loadFromString :: "'n yaml \<Rightarrow> string \<Rightarrow> Config \<Rightarrow> bool \<times> Config" where
  "loadFromString y yaml_content c =
     (case Load y yaml_content of
        Inr config_node \<Rightarrow> parseYaml y config_node c
      | Inl e \<Rightarrow> (False, c\<lparr>cfg_error_message := ''YAML parse error: '' @ e, cfg_valid := False\<rparr>))"

subsection \<open>Values\<close>

fun node_at :: "'n yaml \<Rightarrow> 'n \<Rightarrow> string list \<Rightarrow> 'n option" where
  "node_at y n [] = Some n"
| "node_at y n (k # ks) = (case index y n k of Inr (Some m) \<Rightarrow> node_at y m ks | _ \<Rightarrow> None)"

text \<open>The value under a path, or \<open>d\<close> where there is none.\<close>

definition value_at :: "'n yaml \<Rightarrow> 'n \<Rightarrow> string list \<Rightarrow> ('n \<Rightarrow> exn + 'a) \<Rightarrow> 'a \<Rightarrow> 'a" where
  "value_at y n path conv d =
     (case node_at y n path of None \<Rightarrow> d | Some m \<Rightarrow> (case conv m of Inl _ \<Rightarrow> d | Inr v \<Rightarrow> v))"

lemma value_at_present: "index y n k = Inr (Some m) \<Longrightarrow> value_at y n (k # ks) conv d = value_at y m ks conv d"
  and value_at_absent: "index y n k = Inr None \<Longrightarrow> value_at y n (k # ks) conv d = d"
  by (simp_all add: value_at_def)

lemma followed_by_ok:
  "followed_by f g c = (Inr u, c') \<longleftrightarrow> (\<exists>c1. f c = (Inr (), c1) \<and> g c1 = (Inr u, c'))"
  by (auto simp: followed_by_def split: prod.splits sum.splits)

lemma all_of_ok [simp]:
  "all_of [] c = (Inr u, c') \<longleftrightarrow> c' = c"
  "all_of (f # fs) c = (Inr u, c') \<longleftrightarrow> (\<exists>c1. f c = (Inr (), c1) \<and> all_of fs c1 = (Inr u, c'))"
  by (auto simp: all_of_def nothing_def followed_by_ok)

lemma with_section_ok:
  "with_section y n k body c = (Inr u, c') \<longleftrightarrow>
     (index y n k = Inr None \<and> c' = c) \<or> (\<exists>m. index y n k = Inr (Some m) \<and> body m c = (Inr u, c'))"
  by (auto simp: with_section_def split: sum.splits option.splits)

lemma field_ok:
  assumes "field y n k conv set_member c = (Inr u, c')" and "set_member (get c) c = c"
  shows "c' = set_member (value_at y n [k] conv (get c)) c"
  using assms
  by (auto simp: field_def with_section_def value_at_def split: sum.splits option.splits)

lemma self_update:
  fixes c :: Config
  shows "c\<lparr>cfg_listen_port := cfg_listen_port c\<rparr> = c"
    "c\<lparr>cfg_listen_address := cfg_listen_address c\<rparr> = c"
    "c\<lparr>cfg_num_threads := cfg_num_threads c\<rparr> = c"
    "c\<lparr>cfg_db_host := cfg_db_host c\<rparr> = c"
    "c\<lparr>cfg_db_port := cfg_db_port c\<rparr> = c"
    "c\<lparr>cfg_pool_min_size := cfg_pool_min_size c\<rparr> = c"
    "c\<lparr>cfg_pool_max_size := cfg_pool_max_size c\<rparr> = c"
    "c\<lparr>cfg_pool_idle_timeout_seconds := cfg_pool_idle_timeout_seconds c\<rparr> = c"
    "c\<lparr>cfg_l1_max_size := cfg_l1_max_size c\<rparr> = c"
    "c\<lparr>cfg_l1_enabled := cfg_l1_enabled c\<rparr> = c"
    "c\<lparr>cfg_redis_enabled := cfg_redis_enabled c\<rparr> = c"
    "c\<lparr>cfg_redis_host := cfg_redis_host c\<rparr> = c"
    "c\<lparr>cfg_redis_port := cfg_redis_port c\<rparr> = c"
    "c\<lparr>cfg_redis_timeout_ms := cfg_redis_timeout_ms c\<rparr> = c"
    "c\<lparr>cfg_log_level := cfg_log_level c\<rparr> = c"
    "c\<lparr>cfg_log_pattern := cfg_log_pattern c\<rparr> = c"
    "c\<lparr>cfg_ssl_enabled := cfg_ssl_enabled c\<rparr> = c"
  by simp_all

lemmas field_oks =
  field_ok[where set_member = "\<lambda>v c. c\<lparr>cfg_listen_port := v\<rparr>" and get = cfg_listen_port, OF _ self_update(1)]
  field_ok[where set_member = "\<lambda>v c. c\<lparr>cfg_listen_address := v\<rparr>" and get = cfg_listen_address, OF _ self_update(2)]
  field_ok[where set_member = "\<lambda>v c. c\<lparr>cfg_num_threads := v\<rparr>" and get = cfg_num_threads, OF _ self_update(3)]
  field_ok[where set_member = "\<lambda>v c. c\<lparr>cfg_db_host := v\<rparr>" and get = cfg_db_host, OF _ self_update(4)]
  field_ok[where set_member = "\<lambda>v c. c\<lparr>cfg_db_port := v\<rparr>" and get = cfg_db_port, OF _ self_update(5)]
  field_ok[where set_member = "\<lambda>v c. c\<lparr>cfg_pool_min_size := v\<rparr>" and get = cfg_pool_min_size, OF _ self_update(6)]
  field_ok[where set_member = "\<lambda>v c. c\<lparr>cfg_pool_max_size := v\<rparr>" and get = cfg_pool_max_size, OF _ self_update(7)]
  field_ok[where set_member = "\<lambda>v c. c\<lparr>cfg_pool_idle_timeout_seconds := v\<rparr>" and get = cfg_pool_idle_timeout_seconds, OF _ self_update(8)]
  field_ok[where set_member = "\<lambda>v c. c\<lparr>cfg_l1_max_size := v\<rparr>" and get = cfg_l1_max_size, OF _ self_update(9)]
  field_ok[where set_member = "\<lambda>v c. c\<lparr>cfg_l1_enabled := v\<rparr>" and get = cfg_l1_enabled, OF _ self_update(10)]
  field_ok[where set_member = "\<lambda>v c. c\<lparr>cfg_redis_enabled := v\<rparr>" and get = cfg_redis_enabled, OF _ self_update(11)]
  field_ok[where set_member = "\<lambda>v c. c\<lparr>cfg_redis_host := v\<rparr>" and get = cfg_redis_host, OF _ self_update(12)]
  field_ok[where set_member = "\<lambda>v c. c\<lparr>cfg_redis_port := v\<rparr>" and get = cfg_redis_port, OF _ self_update(13)]
  field_ok[where set_member = "\<lambda>v c. c\<lparr>cfg_redis_timeout_ms := v\<rparr>" and get = cfg_redis_timeout_ms, OF _ self_update(14)]
  field_ok[where set_member = "\<lambda>v c. c\<lparr>cfg_log_level := v\<rparr>" and get = cfg_log_level, OF _ self_update(15)]
  field_ok[where set_member = "\<lambda>v c. c\<lparr>cfg_log_pattern := v\<rparr>" and get = cfg_log_pattern, OF _ self_update(16)]
  field_ok[where set_member = "\<lambda>v c. c\<lparr>cfg_ssl_enabled := v\<rparr>" and get = cfg_ssl_enabled, OF _ self_update(17)]

lemma parse_server_ok:
  "parse_server y n c = (Inr u, c') \<Longrightarrow> c' = c\<lparr>
     cfg_listen_port := value_at y n [''server'', ''listen_port''] (as_ushort y) (cfg_listen_port c),
     cfg_listen_address := value_at y n [''server'', ''listen_address''] (as_string y) (cfg_listen_address c),
     cfg_num_threads := value_at y n [''server'', ''num_threads''] (as_uint y) (cfg_num_threads c)\<rparr>"
  by (auto simp: parse_server_def with_section_ok value_at_present value_at_absent
      dest!: field_oks)

lemma parse_database_ok:
  "parse_database y n c = (Inr u, c') \<Longrightarrow> c' = c\<lparr>
     cfg_db_host := value_at y n [''database'', ''host''] (as_string y) (cfg_db_host c),
     cfg_db_port := value_at y n [''database'', ''port''] (as_ushort y) (cfg_db_port c),
     cfg_pool_min_size := value_at y n [''database'', ''pool'', ''min_size''] (as_size_t y) (cfg_pool_min_size c),
     cfg_pool_max_size := value_at y n [''database'', ''pool'', ''max_size''] (as_size_t y) (cfg_pool_max_size c),
     cfg_pool_idle_timeout_seconds :=
       value_at y n [''database'', ''pool'', ''idle_timeout_seconds''] (as_size_t y) (cfg_pool_idle_timeout_seconds c)\<rparr>"
  by (auto simp: parse_database_def with_section_ok value_at_present value_at_absent
      dest!: field_oks)

lemma parse_cache_ok:
  "parse_cache y n c = (Inr u, c') \<Longrightarrow> c' = c\<lparr>
     cfg_l1_max_size := value_at y n [''cache'', ''l1'', ''max_size''] (as_size_t y) (cfg_l1_max_size c),
     cfg_l1_enabled := value_at y n [''cache'', ''l1'', ''enabled''] (as_bool y) (cfg_l1_enabled c),
     cfg_redis_enabled := value_at y n [''cache'', ''l2'', ''redis'', ''enabled''] (as_bool y) (cfg_redis_enabled c),
     cfg_redis_host := value_at y n [''cache'', ''l2'', ''redis'', ''host''] (as_string y) (cfg_redis_host c),
     cfg_redis_port := value_at y n [''cache'', ''l2'', ''redis'', ''port''] (as_int y) (cfg_redis_port c),
     cfg_redis_timeout_ms := value_at y n [''cache'', ''l2'', ''redis'', ''timeout_ms''] (as_int y) (cfg_redis_timeout_ms c)\<rparr>"
  by (auto simp: parse_cache_def with_section_ok value_at_present value_at_absent
      dest!: field_oks)

lemma parse_logging_ok:
  "parse_logging y n c = (Inr u, c') \<Longrightarrow> c' = c\<lparr>
     cfg_log_level := value_at y n [''logging'', ''level''] (as_string y) (cfg_log_level c),
     cfg_log_pattern := value_at y n [''logging'', ''pattern''] (as_string y) (cfg_log_pattern c)\<rparr>"
  by (auto simp: parse_logging_def with_section_ok value_at_present value_at_absent
      dest!: field_oks)

lemma parse_ssl_ok:
  "parse_ssl y n c = (Inr u, c') \<Longrightarrow> c' = c\<lparr>
     cfg_ssl_enabled := value_at y n [''ssl'', ''enabled''] (as_bool y) (cfg_ssl_enabled c)\<rparr>"
  by (auto simp: parse_ssl_def with_section_ok value_at_present value_at_absent
      dest!: field_oks)

lemmas parse_ok = parse_server_ok parse_database_ok parse_cache_ok parse_logging_ok parse_ssl_ok

subsection \<open>Properties\<close>


text \<open>A concrete document type: scalars and maps.\<close>

datatype document = Scalar string | Entries "(string \<times> document) list"

fun scalar :: "(string \<Rightarrow> exn + 'a) \<Rightarrow> document \<Rightarrow> exn + 'a" where
  "scalar conv (Scalar t) = conv t"
| "scalar conv (Entries kvs) = Inl (YamlException ''bad conversion'')"

definition document_yaml :: "(string \<rightharpoonup> document) \<Rightarrow> document yaml" where
  "document_yaml files = \<lparr>
     LoadFile = (\<lambda>path. case files path of None \<Rightarrow> Inl BadFile | Some n \<Rightarrow> Inr n),
     Load = (\<lambda>t. Inr (Scalar t)),
     index = (\<lambda>n k. case n of Scalar _ \<Rightarrow> Inl (YamlException ''operator[] call on a scalar'') | Entries kvs \<Rightarrow> Inr (map_of kvs k)),
     as_string = scalar Inr,
     as_ushort = scalar (\<lambda>t. if dec_value t < 65536 then Inr (of_nat (dec_value t)) else Inl (YamlException ''bad conversion'')),
     as_uint = scalar (\<lambda>t. Inr (of_nat (dec_value t))), as_size_t = scalar (\<lambda>t. Inr (of_nat (dec_value t))),
     as_int = scalar (\<lambda>t. Inr (int (dec_value t))), as_bool = scalar (\<lambda>t. Inr (t = ''true''))\<rparr>"


lemma parseYaml_valid:
  "fst (parseYaml y n c) = cfg_valid (snd (parseYaml y n c))"
  "\<not> fst (parseYaml y n c) \<Longrightarrow> cfg_error_message (snd (parseYaml y n c)) \<noteq> []"
  by (auto simp: parseYaml_def split: prod.splits sum.splits exn.splits)

lemma loadFromFile_valid: "fst (loadFromFile y path c) = cfg_valid (snd (loadFromFile y path c))"
  by (simp add: loadFromFile_def setDefaults_def parseYaml_valid split: sum.splits load_error.splits)

text \<open>Property C36: \<^verbatim>\<open>loadFromFile\<close> and \<^verbatim>\<open>loadFromString\<close> return true exactly if the configuration is valid
  afterwards, a failure leaves an error message, and a missing file is no failure: no other member
  changes.\<close>

theorem load_result_is_validity:
  "fst (loadFromFile y path c) = cfg_valid (snd (loadFromFile y path c)) \<and>
   (\<not> fst (loadFromFile y path c) \<longrightarrow> cfg_error_message (snd (loadFromFile y path c)) \<noteq> []) \<and>
   fst (loadFromString y content c) = cfg_valid (snd (loadFromString y content c)) \<and>
   (\<not> fst (loadFromString y content c) \<longrightarrow> cfg_error_message (snd (loadFromString y content c)) \<noteq> []) \<and>
   (LoadFile y path = Inl BadFile \<longrightarrow> loadFromFile y path c = (True, c\<lparr>cfg_valid := True\<rparr>))"
  using parseYaml_valid[of y]
  by (auto simp: loadFromFile_def loadFromString_def setDefaults_def split: sum.splits load_error.splits)

theorem load_result_is_validity_witness:
  "loadFromFile (document_yaml Map.empty) ''config.yaml'' Config_init = (True, Config_init\<lparr>cfg_valid := True\<rparr>)"
  using load_result_is_validity[of "document_yaml Map.empty" "''config.yaml''" Config_init] by (simp add: document_yaml_def)

end
