(* ===== verification/Session_Packets.thy ===== *)
theory Session_Packets
  imports Prelude
begin

section \<open>Session: packets and error codes\<close>

text \<open>
  The pure parts of \<^verbatim>\<open>src/src/Session/Session.cpp\<close>: recognising and extracting a simple query
  (PostgreSQL message \<^verbatim>\<open>Q\<close>: type byte, four bytes of length, SQL text, NUL), recognising the
  SSLRequest of the startup phase, and \<^verbatim>\<open>is_expected_ssl_error\<close>. A buffer is a \<^typ>\<open>string\<close>
  of its full size and \<open>len\<close> the number of bytes the last read put in front.
\<close>

abbreviation NUL :: char where "NUL \<equiv> CHR 0x00"

subsection \<open>Queries\<close>

definition is_sql_query :: "string \<Rightarrow> nat \<Rightarrow> bool" where
  "is_sql_query buffer len \<longleftrightarrow> 0 < len \<and> buffer ! 0 = CHR ''Q''"

text \<open>The loop of \<^verbatim>\<open>extract_sql_query\<close>: the first NUL from \<open>p\<close> on, or the end.\<close>

function find_nul :: "string \<Rightarrow> nat \<Rightarrow> nat \<Rightarrow> nat" where
  "find_nul data p query_end =
     (if p < query_end then if data ! p = NUL then p else find_nul data (Suc p) query_end
      else query_end)"
  by pat_completeness auto
termination
  by (relation "measure (\<lambda>(data, p, e). e - p)") auto

declare find_nul.simps [simp del]

definition extract_sql_query :: "string \<Rightarrow> nat \<Rightarrow> string" where
  "extract_sql_query buffer len =
     (if len < 5 then []
      else let query_start = 5; query_end = find_nul buffer query_start len in
        if query_end \<le> query_start then []
        else take (query_end - query_start) (drop query_start buffer))"

lemma find_nul_takeWhile:
  "p \<le> e \<Longrightarrow> e \<le> length data \<Longrightarrow>
   find_nul data p e = p + length (takeWhile (\<lambda>c. c \<noteq> NUL) (drop p (take e data)))"
proof (induction data p e rule: find_nul.induct)
  case (1 data p e)
  show ?case
  proof (cases "p < e")
    case True
    with "1.prems" have "drop p (take e data) = data ! p # drop (Suc p) (take e data)"
      by (metis Cons_nth_drop_Suc length_take min.absorb2 nth_take)
    with 1 True show ?thesis by (auto simp: find_nul.simps[of data p e])
  next
    case False
    with "1.prems" show ?thesis by (subst find_nul.simps) simp
  qed
qed

text \<open>The loop computes the text between the header and the first NUL.\<close>

lemma extract_sql_query_eq:
  assumes "len \<le> length buffer"
  shows "extract_sql_query buffer len = takeWhile (\<lambda>c. c \<noteq> NUL) (drop 5 (take len buffer))"
proof (cases "len < 5")
  case False
  define w where "w = takeWhile (\<lambda>c. c \<noteq> NUL) (drop 5 (take len buffer))"
  have e: "find_nul buffer 5 len = 5 + length w"
    using find_nul_takeWhile[of 5 len buffer] False assms unfolding w_def by linarith
  have le: "length w \<le> len - 5"
    unfolding w_def by (rule order_trans[OF length_takeWhile_le]) (simp add: assms)
  have "w = take (length w) (drop 5 (take len buffer))"
    unfolding w_def by (rule takeWhile_eq_take)
  also have "\<dots> = take (length w) (drop 5 buffer)"
    using le by (simp only: drop_take take_take min_absorb1)
  finally have t: "take (5 + length w - 5) (drop 5 buffer) = w" by simp
  have "extract_sql_query buffer len = w"
    unfolding extract_sql_query_def Let_def e using False t by (cases w) auto
  then show ?thesis unfolding w_def .
qed (simp add: extract_sql_query_def)

text \<open>The simple-query message of the protocol; its length field counts itself, the text
  and the NUL, in network byte order.\<close>

definition be32 :: "nat \<Rightarrow> string" where
  "be32 n = map (\<lambda>i. char_of (n div 256 ^ i)) [3, 2, 1, 0]"

lemma byte_eqI: "n mod 256 = of_char c \<Longrightarrow> char_of (n :: nat) = c"
  by (simp add: char_of_eq_iff take_bit_eq_mod)

definition query_message :: "string \<Rightarrow> string" where
  "query_message sql = CHR ''Q'' # be32 (length sql + 5) @ sql @ [NUL]"

lemma extract_query_message:
  assumes "NUL \<notin> set sql" and "len = length (query_message sql @ rest)"
  shows "extract_sql_query (query_message sql @ rest @ junk) len = sql"
proof -
  have "take len (query_message sql @ rest @ junk) = query_message sql @ rest"
    using assms(2) by simp
  moreover have "query_message sql @ rest = (CHR ''Q'' # be32 (length sql + 5)) @ sql @ NUL # rest"
    by (simp add: query_message_def)
  moreover have "length (CHR ''Q'' # be32 (length sql + 5)) = 5" by (simp add: be32_def)
  ultimately have "drop 5 (take len (query_message sql @ rest @ junk)) = sql @ NUL # rest"
    by (metis append_eq_conv_conj)
  moreover have "takeWhile (\<lambda>c. c \<noteq> NUL) (sql @ NUL # rest) = sql"
    using assms(1) by (subst takeWhile_append2) auto
  ultimately show ?thesis
    using extract_sql_query_eq[of len "query_message sql @ rest @ junk"] assms(2) by simp
qed

subsection \<open>The SSLRequest of the startup phase\<close>

text \<open>\<^verbatim>\<open>length == 8 && client_buffer_[4] == 0x04 && client_buffer_[5] == 0xd2\<close>\<close>

definition is_ssl_request :: "string \<Rightarrow> nat \<Rightarrow> bool" where
  "is_ssl_request buffer len \<longleftrightarrow> len = 8 \<and> buffer ! 4 = CHR 0x04 \<and> buffer ! 5 = CHR 0xd2"

definition ssl_request_data :: string where
  "ssl_request_data = [CHR 0x00, CHR 0x00, CHR 0x00, CHR 0x08, CHR 0x04, CHR 0xd2, CHR 0x16, CHR 0x2f]"

subsection \<open>Error codes\<close>

datatype error_category = SystemCategory | MiscCategory | SslCategory | OtherCategory

record error_code =
  ec_category :: error_category
  ec_value :: int
  ec_message :: string

definition success :: error_code where
  "success = \<lparr>ec_category = SystemCategory, ec_value = 0, ec_message = ''Success''\<rparr>"

text \<open>The conversion to \<^verbatim>\<open>bool\<close>.\<close>

definition failed :: "error_code \<Rightarrow> bool" where
  "failed ec \<longleftrightarrow> ec_value ec \<noteq> 0"

text \<open>Codes compare by category and value: \<^verbatim>\<open>operation_aborted\<close> is \<^verbatim>\<open>ECANCELED\<close> (125 on Linux), \<^verbatim>\<open>eof\<close> is 2
  in Asio's miscellaneous category.\<close>

definition operation_aborted :: "error_code \<Rightarrow> bool" where
  "operation_aborted ec \<longleftrightarrow> ec_category ec = SystemCategory \<and> ec_value ec = 125"

definition is_eof :: "error_code \<Rightarrow> bool" where
  "is_eof ec \<longleftrightarrow> ec_category ec = MiscCategory \<and> ec_value ec = 2"

definition is_expected_ssl_error :: "error_code \<Rightarrow> bool" where
  "is_expected_ssl_error ec =
     (if operation_aborted ec then True
      else if ec_category ec = SslCategory \<and>
        (let msg = ec_message ec in
           str_contains ''stream truncated'' msg \<or> str_contains ''short read'' msg \<or>
           str_contains ''protocol is shutdown'' msg \<or> str_contains ''bad record mac'' msg)
      then True else False)"

lemma eof_not_expected: "is_eof ec \<Longrightarrow> \<not> is_expected_ssl_error ec"
  by (simp add: is_eof_def is_expected_ssl_error_def operation_aborted_def)

lemma success_simps [simp]: "\<not> failed success"
  by (simp add: failed_def success_def)

subsection \<open>Properties\<close>

text \<open>Property C16: for every read of \<open>len\<close> bytes, \<^verbatim>\<open>extract_sql_query\<close> returns the bytes from the
  fifth on up to the first NUL or the end; on a simple-query message it returns the SQL text,
  whatever follows in the same read or lies in the buffer behind it.\<close>

theorem extract_sql_query_correct:
  assumes "len \<le> length buffer" and "NUL \<notin> set sql"
    and "n = length (query_message sql @ rest)"
  shows "extract_sql_query buffer len = takeWhile (\<lambda>c. c \<noteq> NUL) (drop 5 (take len buffer)) \<and>
    is_sql_query (query_message sql @ rest @ junk) n \<and>
    extract_sql_query (query_message sql @ rest @ junk) n = sql"
  using extract_sql_query_eq[OF assms(1)] extract_query_message[OF assms(2,3)] assms(3)
  by (simp add: is_sql_query_def query_message_def)

theorem extract_sql_query_correct_witness:
  "extract_sql_query (query_message ''SELECT 1'' @ [] @ [NUL, NUL]) 14 = ''SELECT 1''"
  using extract_sql_query_correct[of 0 "[]" "''SELECT 1''" 14 "[]" "[NUL, NUL]"]
  by (simp add: query_message_def be32_def)

text \<open>Property C38: the proxy's own request is the SSLRequest of the protocol (length 8, code 1234 and 5679). A client's packet of
  eight bytes is taken for an SSLRequest whenever its code begins with 1234, whatever follows: GSSENCRequest
  (1234 and 5680) is answered as if it asked for TLS.\<close>

theorem ssl_request_detection:
  assumes "length packet = 8" and "drop 4 packet = be32 (1234 * 65536 + minor)" and "minor < 65536"
  shows "is_ssl_request (packet @ junk) 8 \<and> ssl_request_data = be32 8 @ be32 (1234 * 65536 + 5679)"
proof -
  have b: "packet ! (4 + i) = be32 (1234 * 65536 + minor) ! i" for i
    using nth_drop[of 4 packet i] assms(1) by (simp only: assms(2))
  have "(1234 * 65536 + minor) div 16777216 = 4" "(1234 * 65536 + minor) div 65536 = 1234"
    by (rule div_nat_eqI; use assms(3) in simp)+
  then have "packet ! 4 = char_of (4 :: nat)" "packet ! 5 = char_of (1234 :: nat)"
    using b[of 0] b[of 1] by (simp_all add: be32_def)
  moreover have "char_of (4 :: nat) = CHR 0x04" "char_of (1234 :: nat) = CHR 0xd2" by (rule byte_eqI; simp)+
  ultimately have "is_ssl_request (packet @ junk) 8" using assms(1) by (simp add: is_ssl_request_def nth_append)
  moreover have "ssl_request_data = be32 8 @ be32 (1234 * 65536 + 5679)"
  proof -
    have "char_of (0 :: nat) = CHR 0x00" "char_of (8 :: nat) = CHR 0x08" "char_of (4 :: nat) = CHR 0x04"
      "char_of (1234 :: nat) = CHR 0xd2" "char_of (315926 :: nat) = CHR 0x16" "char_of (80877103 :: nat) = CHR 0x2f"
      by (rule byte_eqI; simp)+
    then show ?thesis by (simp add: ssl_request_data_def be32_def)
  qed
  ultimately show ?thesis by blast
qed

theorem ssl_request_detection_witness:
  "is_ssl_request ((be32 8 @ be32 (1234 * 65536 + 5680)) @ []) 8"
  using ssl_request_detection[of "be32 8 @ be32 (1234 * 65536 + 5680)" 5680 "[]"] by (simp add: be32_def)



end
