(* ===== verification/Session_Model.thy ===== *)
theory Session_Model
  imports Session_Packets
begin

section \<open>Session: state and methods\<close>

text \<open>
  The class \<^verbatim>\<open>Session\<close>. A method starts asynchronous operations; Asio later calls the handler it
  passed. Handlers are lambdas that capture the session: here each lambda is a constructor
  of \<open>handler\<close>, an operation in flight is an \<open>async_op\<close> with its handler, and a method maps the
  session to the new session and the operations it starts, in order. What a handler
  does when its operation completes is \<open>on_complete\<close>; the two read handlers of the bridge that talk to
  \<^verbatim>\<open>QueryCache\<close> are in \<open>Proxy_System\<close>.

  A socket is whether it is open; a moved-from or reset socket is \<open>None\<close>. Dereferencing
  an empty \<^verbatim>\<open>std::optional\<close> is undefined behaviour and \<open>None\<close>. Not modelled: logging, and allocation
  failures.
\<close>

subsection \<open>State\<close>

record tcp_socket =
  is_open :: bool

text \<open>The process-wide TLS contexts, of which a session holds references. What matters of a context is whether a
  stream can be made from it; if not, the constructor of the stream throws.\<close>

record tls_context =
  makes_streams :: bool

type_synonym tls_contexts = "tls_context \<times> tls_context"

record session =
  client_ssl_context :: tls_context
  server_ssl_context :: tls_context
  client_ssl_socket :: "tcp_socket option"
  server_ssl_socket :: "tcp_socket option"
  client_buffer :: string
  server_buffer :: string
  startup_packet :: string
  current_query :: string
  cached_response :: string
  client_socket :: "tcp_socket option"
  server_socket :: "tcp_socket option"
  db_host :: string
  db_port :: u16
  ssl_enabled :: bool
  is_destroying :: bool
  client_closed :: bool
  server_closed :: bool

definition BUFSIZE :: nat where "BUFSIZE = 8192"

text \<open>\<^verbatim>\<open>std::vector<char>::resize\<close>\<close>

definition resize :: "nat \<Rightarrow> string \<Rightarrow> string" where
  "resize n xs = take n xs @ replicate (n - length xs) NUL"

text \<open>The constructor: an accepted client socket, a server socket that is not open yet.\<close>

definition new_session :: "tls_contexts \<Rightarrow> string \<Rightarrow> u16 \<Rightarrow> session" where
  "new_session ctxs host port = \<lparr>client_ssl_context = fst ctxs, server_ssl_context = snd ctxs,
     client_ssl_socket = None, server_ssl_socket = None,
     client_buffer = replicate BUFSIZE NUL, server_buffer = replicate BUFSIZE NUL,
     startup_packet = replicate BUFSIZE NUL, current_query = [], cached_response = [],
     client_socket = Some \<lparr>is_open = True\<rparr>, server_socket = Some \<lparr>is_open = False\<rparr>,
     db_host = host, db_port = port, ssl_enabled = False, is_destroying = False,
     client_closed = False, server_closed = False\<rparr>"

abbreviation tls_ok :: tls_contexts where
  "tls_ok \<equiv> (\<lparr>makes_streams = True\<rparr>, \<lparr>makes_streams = True\<rparr>)"

subsection \<open>Closing\<close>

datatype endpoint = ClientTcp | ServerTcp | ClientSsl | ServerSsl

datatype socket_call = Cancel endpoint | SslShutdown endpoint | Close endpoint

fun socket_at :: "endpoint \<Rightarrow> session \<Rightarrow> tcp_socket option" where
  "socket_at ClientTcp s = client_socket s"
| "socket_at ServerTcp s = server_socket s"
| "socket_at ClientSsl s = client_ssl_socket s"
| "socket_at ServerSsl s = server_ssl_socket s"

definition open_at :: "endpoint \<Rightarrow> session \<Rightarrow> bool" where
  "open_at e s = (case socket_at e s of None \<Rightarrow> False | Some k \<Rightarrow> is_open k)"

definition shut :: "tcp_socket option \<Rightarrow> tcp_socket option" where
  "shut = map_option (\<lambda>k. k\<lparr>is_open := False\<rparr>)"

fun close_at :: "endpoint \<Rightarrow> session \<Rightarrow> session" where
  "close_at ClientTcp s = s\<lparr>client_socket := shut (client_socket s)\<rparr>"
| "close_at ServerTcp s = s\<lparr>server_socket := shut (server_socket s)\<rparr>"
| "close_at ClientSsl s = s\<lparr>client_ssl_socket := shut (client_ssl_socket s)\<rparr>"
| "close_at ServerSsl s = s\<lparr>server_ssl_socket := shut (server_ssl_socket s)\<rparr>"

text \<open>One block of \<^verbatim>\<open>cleanup_sockets\<close>: \<^verbatim>\<open>if (socket && socket.is_open()) socket.call(ec)\<close>.\<close>

definition guarded :: "socket_call \<Rightarrow> session \<times> socket_call list \<Rightarrow> session \<times> socket_call list" where
  "guarded call = (\<lambda>(s, log). case call of
     Cancel e \<Rightarrow> if open_at e s then (s, log @ [call]) else (s, log)
   | SslShutdown e \<Rightarrow> if open_at e s then (s, log @ [call]) else (s, log)
   | Close e \<Rightarrow> if open_at e s then (close_at e s, log @ [call]) else (s, log))"

definition cleanup_sockets :: "session \<Rightarrow> session \<times> socket_call list" where
  "cleanup_sockets s = fold guarded
     [Cancel ClientSsl, Cancel ServerSsl, Cancel ClientTcp, Cancel ServerTcp,
      SslShutdown ClientSsl, SslShutdown ServerSsl,
      Close ClientSsl, Close ServerSsl, Close ClientTcp, Close ServerTcp] (s, [])"

definition close_log :: "session \<Rightarrow> session \<times> socket_call list" where
  "close_log s =
     (if is_destroying s then (s, []) else cleanup_sockets (s\<lparr>is_destroying := True\<rparr>))"

definition close :: "session \<Rightarrow> session" where
  "close s = fst (close_log s)"

text \<open>The destructor.\<close>

definition destroy_session :: "session \<Rightarrow> session" where
  "destroy_session s =
     (fst (cleanup_sockets (s\<lparr>is_destroying := True\<rparr>)))\<lparr>client_ssl_socket := None, server_ssl_socket := None\<rparr>"

subsection \<open>Asynchronous operations\<close>

datatype connect_callback = AfterStart | AfterReconnect

datatype handler =
    OnResolved connect_callback | OnConnected connect_callback
  | OnClientStartup | OnClientStartupSsl | OnStartupSentSsl
  | OnSslRequestSent | OnSslReply | OnNSent | OnSSent
  | OnClientHandshake | OnServerHandshake | OnRelayed
  | OnClientRead | OnResponseSent | OnForwarded
  | OnServerRead | OnToClient

datatype async_op =
    AsyncResolve string string handler
  | AsyncConnect handler
  | AsyncReadSome endpoint handler
  | AsyncReadByte endpoint handler
  | AsyncWrite endpoint string handler
  | AsyncHandshake endpoint handler

fun op_handler :: "async_op \<Rightarrow> handler" where
  "op_handler (AsyncResolve host service hnd) = hnd"
| "op_handler (AsyncConnect hnd) = hnd"
| "op_handler (AsyncReadSome e hnd) = hnd"
| "op_handler (AsyncReadByte e hnd) = hnd"
| "op_handler (AsyncWrite e bytes hnd) = hnd"
| "op_handler (AsyncHandshake e hnd) = hnd"

type_synonym action = "session \<Rightarrow> session \<times> async_op list"

definition skip :: action where "skip s = (s, [])"

definition start_op :: "async_op \<Rightarrow> action" where "start_op op s = (s, [op])"

definition closing :: action where "closing s = (close s, [])"

definition andthen :: "action \<Rightarrow> action \<Rightarrow> action" where
  "andthen f g s = (case f s of (s1, ops1) \<Rightarrow> case g s1 of (s2, ops2) \<Rightarrow> (s2, ops1 @ ops2))"

text \<open>The first lines of every method and handler: nothing happens on a session that is closing.\<close>

definition unless_destroying :: "action \<Rightarrow> action" where
  "unless_destroying f s = (if is_destroying s then skip s else f s)"

text \<open>An error that is expected is only logged, any other closes the session.\<close>

definition on_error :: "error_code \<Rightarrow> action" where
  "on_error ec = (if \<not> is_expected_ssl_error ec then closing else skip)"

definition connect_to_database :: "connect_callback \<Rightarrow> action" where
  "connect_to_database callback = unless_destroying (\<lambda>s.
     start_op (AsyncResolve (db_host s) (to_string (sint (db_port s))) (OnResolved callback)) s)"

definition start :: action where
  "start = unless_destroying (\<lambda>s.
     if client_socket s = None then skip s else connect_to_database AfterStart s)"

definition read_client_startup :: action where
  "read_client_startup = unless_destroying (\<lambda>s.
     if client_socket s = None then skip s
     else start_op (AsyncReadSome ClientTcp OnClientStartup)
            (s\<lparr>client_buffer := resize BUFSIZE (client_buffer s)\<rparr>))"

definition read_client_startup_after_ssl :: action where
  "read_client_startup_after_ssl = unless_destroying (\<lambda>s.
     if client_ssl_socket s = None then skip s
     else start_op (AsyncReadSome ClientSsl OnClientStartupSsl)
            (s\<lparr>client_buffer := resize BUFSIZE (client_buffer s)\<rparr>))"

definition check_server_ssl_support :: action where
  "check_server_ssl_support = unless_destroying (\<lambda>s.
     case server_socket s of
       None \<Rightarrow> skip s
     | Some k \<Rightarrow> if \<not> is_open k then connect_to_database AfterReconnect s
                else start_op (AsyncWrite ServerTcp ssl_request_data OnSslRequestSent) s)"

definition handle_ssl_request :: action where
  "handle_ssl_request = unless_destroying (\<lambda>s.
     if client_socket s = None then skip s else start_op (AsyncWrite ClientTcp ''N'' OnNSent) s)"

definition perform_ssl_handshake :: action where
  "perform_ssl_handshake = unless_destroying (\<lambda>s.
     if client_socket s = None \<or> server_socket s = None then closing s
     else start_op (AsyncWrite ClientTcp ''S'' OnSSent) s)"

definition relay_to_server :: "nat \<Rightarrow> action" where
  "relay_to_server len = unless_destroying (\<lambda>s.
     if server_socket s = None then skip s
     else start_op (AsyncWrite ServerTcp (take len (client_buffer s)) OnRelayed) s)"

definition getServerSocket :: "session \<Rightarrow> tcp_socket option" where
  "getServerSocket s =
     (case server_socket s of None \<Rightarrow> None | Some k \<Rightarrow> if is_open k then Some k else None)"

definition isServerSslEnabled :: "session \<Rightarrow> bool" where
  "isServerSslEnabled s = (ssl_enabled s \<and> server_ssl_socket s \<noteq> None)"

definition bridge_client_to_server :: action where
  "bridge_client_to_server = unless_destroying (\<lambda>s.
     if ssl_enabled s \<and> client_ssl_socket s \<noteq> None
     then start_op (AsyncReadSome ClientSsl OnClientRead) s
     else if client_socket s \<noteq> None then start_op (AsyncReadSome ClientTcp OnClientRead) s
     else closing s)"

definition bridge_server_to_client :: action where
  "bridge_server_to_client = unless_destroying (\<lambda>s.
     if server_closed s then skip s
     else if isServerSslEnabled s
     then (if server_ssl_socket s \<noteq> None then start_op (AsyncReadSome ServerSsl OnServerRead) s
           else closing s)
     else (if getServerSocket s \<noteq> None then start_op (AsyncReadSome ServerTcp OnServerRead) s
           else closing s))"

text \<open>The end of the client's read handler: the bytes go to the server.\<close>

definition forward_to_server :: "nat \<Rightarrow> action" where
  "forward_to_server len s =
     (if server_closed s then skip s
      else if isServerSslEnabled s
      then (if server_ssl_socket s \<noteq> None
            then start_op (AsyncWrite ServerSsl (take len (client_buffer s)) OnForwarded) s
            else closing s)
      else (if getServerSocket s \<noteq> None
            then start_op (AsyncWrite ServerTcp (take len (client_buffer s)) OnForwarded) s
            else closing s))"

text \<open>The end of the server's read handler: the bytes go to the client.\<close>

definition forward_to_client :: "nat \<Rightarrow> action" where
  "forward_to_client len s =
     (if client_closed s then skip s
      else if ssl_enabled s \<and> client_ssl_socket s \<noteq> None
      then start_op (AsyncWrite ClientSsl (take len (server_buffer s)) OnToClient) s
      else if client_socket s \<noteq> None
      then start_op (AsyncWrite ClientTcp (take len (server_buffer s)) OnToClient) s
      else closing s)"

text \<open>The callback a session hands to \<^verbatim>\<open>QueryCache::doSingleFlight\<close>.\<close>

definition on_query_result :: "string \<Rightarrow> action" where
  "on_query_result result = unless_destroying (\<lambda>s.
     let s = s\<lparr>cached_response := result\<rparr> in
     if ssl_enabled s \<and> client_ssl_socket s \<noteq> None
     then start_op (AsyncWrite ClientSsl (cached_response s) OnResponseSent) s
     else if client_socket s \<noteq> None
     then start_op (AsyncWrite ClientTcp (cached_response s) OnResponseSent) s
     else skip s)"

text \<open>The error branches of the two read handlers of the bridge.\<close>

definition client_read_error :: "error_code \<Rightarrow> action" where
  "client_read_error ec s =
     (if is_eof ec
      then let s' = s\<lparr>client_closed := True\<rparr> in if server_closed s' then closing s' else skip s'
      else on_error ec s)"

definition server_read_error :: "error_code \<Rightarrow> action" where
  "server_read_error ec s =
     (if is_eof ec
      then let s' = s\<lparr>server_closed := True\<rparr> in if client_closed s' then closing s' else skip s'
      else on_error ec s)"

subsection \<open>Completions\<close>

text \<open>The callback parameter of \<^verbatim>\<open>connect_to_database\<close>.\<close>

fun run_connect_callback :: "connect_callback \<Rightarrow> error_code \<Rightarrow> action" where
  "run_connect_callback AfterStart ec = unless_destroying (if failed ec then closing else read_client_startup)"
| "run_connect_callback AfterReconnect ec =
     unless_destroying (if failed ec then closing else check_server_ssl_support)"

text \<open>One definition per lambda. A handler gets the error code \<open>ec\<close> and, after a read, the number
  of bytes \<open>len\<close> that were put into the session's buffer.\<close>

definition on_resolved :: "connect_callback \<Rightarrow> error_code \<Rightarrow> session \<Rightarrow> (session \<times> async_op list) option" where
  "on_resolved callback ec s =
     (if is_destroying s then Some (skip s)
      else if failed ec then Some (run_connect_callback callback ec s)
      else if server_socket s = None then None
      else Some (start_op (AsyncConnect (OnConnected callback)) s))"

definition on_connected :: "connect_callback \<Rightarrow> error_code \<Rightarrow> action" where
  "on_connected callback ec = unless_destroying (run_connect_callback callback ec)"

definition on_client_startup :: "error_code \<Rightarrow> nat \<Rightarrow> action" where
  "on_client_startup ec len = unless_destroying (\<lambda>s.
     if \<not> failed ec
     then if is_ssl_request (client_buffer s) len
          then check_server_ssl_support (s\<lparr>startup_packet := take len (client_buffer s)\<rparr>)
          else relay_to_server len s
     else on_error ec s)"

definition on_client_startup_ssl :: "error_code \<Rightarrow> nat \<Rightarrow> action" where
  "on_client_startup_ssl ec len = unless_destroying (\<lambda>s.
     if \<not> failed ec
     then if server_ssl_socket s = None then skip s
          else start_op (AsyncWrite ServerSsl (take len (client_buffer s)) OnStartupSentSsl) s
     else on_error ec s)"

definition on_startup_sent_ssl :: "error_code \<Rightarrow> action" where
  "on_startup_sent_ssl ec = unless_destroying
     (if \<not> failed ec then andthen bridge_server_to_client bridge_client_to_server else closing)"

definition on_ssl_request_sent :: "error_code \<Rightarrow> session \<Rightarrow> (session \<times> async_op list) option" where
  "on_ssl_request_sent ec s =
     (if is_destroying s then Some (skip s)
      else if \<not> failed ec
      then if server_socket s = None then None
           else Some (start_op (AsyncReadByte ServerTcp OnSslReply) s)
      else Some (on_error ec s))"

definition on_ssl_reply :: "error_code \<Rightarrow> char \<Rightarrow> action" where
  "on_ssl_reply ec reply = unless_destroying (
     if \<not> failed ec
     then if reply = CHR ''S'' then perform_ssl_handshake else handle_ssl_request
     else on_error ec)"

definition on_n_sent :: "error_code \<Rightarrow> action" where
  "on_n_sent ec = unless_destroying (\<lambda>s.
     if \<not> failed ec then relay_to_server (length (startup_packet s)) s else on_error ec s)"

text \<open>The streams are made from the plain sockets, the client's with the server context and the server's with the
  client context. A constructor that throws has already moved its socket away; the session is
  closed then.\<close>

definition on_s_sent :: "error_code \<Rightarrow> session \<Rightarrow> (session \<times> async_op list) option" where
  "on_s_sent ec s =
     (if is_destroying s then Some (skip s)
      else if failed ec then Some (on_error ec s)
      else if client_socket s = None \<or> server_socket s = None then None
      else if \<not> makes_streams (server_ssl_context s)
      then Some (closing (s\<lparr>client_socket := shut (client_socket s)\<rparr>))
      else if \<not> makes_streams (client_ssl_context s)
      then Some (closing (s\<lparr>client_ssl_socket := client_socket s, client_socket := shut (client_socket s),
                            server_socket := shut (server_socket s)\<rparr>))
      else Some (start_op (AsyncHandshake ClientSsl OnClientHandshake)
             (s\<lparr>client_ssl_socket := client_socket s, server_ssl_socket := server_socket s,
                client_socket := None, server_socket := None\<rparr>)))"

definition on_client_handshake :: "error_code \<Rightarrow> action" where
  "on_client_handshake ec = unless_destroying (\<lambda>s.
     if failed ec then closing s
     else if server_ssl_socket s = None then closing s
     else start_op (AsyncHandshake ServerSsl OnServerHandshake) s)"

definition on_server_handshake :: "error_code \<Rightarrow> action" where
  "on_server_handshake ec = unless_destroying (\<lambda>s.
     if \<not> failed ec then read_client_startup_after_ssl (s\<lparr>ssl_enabled := True\<rparr>)
     else on_error ec s)"

definition on_relayed :: "error_code \<Rightarrow> action" where
  "on_relayed ec = unless_destroying
     (if \<not> failed ec then andthen bridge_client_to_server bridge_server_to_client else on_error ec)"

definition on_response_sent :: "error_code \<Rightarrow> action" where
  "on_response_sent ec = unless_destroying (if \<not> failed ec then bridge_client_to_server else skip)"

definition on_forwarded :: "error_code \<Rightarrow> action" where
  "on_forwarded ec = unless_destroying (if \<not> failed ec then bridge_client_to_server else on_error ec)"

definition on_to_client :: "error_code \<Rightarrow> action" where
  "on_to_client ec = unless_destroying (if \<not> failed ec then bridge_server_to_client else on_error ec)"

text \<open>Which lambda an operation calls; \<open>reply\<close> is the one byte of the server's SSL answer. The two
  read handlers of the bridge also use the query cache and have no equation of their own here.\<close>

fun on_complete :: "handler \<Rightarrow> error_code \<Rightarrow> nat \<Rightarrow> char \<Rightarrow> session \<Rightarrow> (session \<times> async_op list) option" where
  "on_complete (OnResolved callback) ec len reply s = on_resolved callback ec s"
| "on_complete (OnConnected callback) ec len reply s = Some (on_connected callback ec s)"
| "on_complete OnClientStartup ec len reply s = Some (on_client_startup ec len s)"
| "on_complete OnClientStartupSsl ec len reply s = Some (on_client_startup_ssl ec len s)"
| "on_complete OnStartupSentSsl ec len reply s = Some (on_startup_sent_ssl ec s)"
| "on_complete OnSslRequestSent ec len reply s = on_ssl_request_sent ec s"
| "on_complete OnSslReply ec len reply s = Some (on_ssl_reply ec reply s)"
| "on_complete OnNSent ec len reply s = Some (on_n_sent ec s)"
| "on_complete OnSSent ec len reply s = on_s_sent ec s"
| "on_complete OnClientHandshake ec len reply s = Some (on_client_handshake ec s)"
| "on_complete OnServerHandshake ec len reply s = Some (on_server_handshake ec s)"
| "on_complete OnRelayed ec len reply s = Some (on_relayed ec s)"
| "on_complete OnResponseSent ec len reply s = Some (on_response_sent ec s)"
| "on_complete OnForwarded ec len reply s = Some (on_forwarded ec s)"
| "on_complete OnToClient ec len reply s = Some (on_to_client ec s)"
| "on_complete OnClientRead ec len reply s = None"
| "on_complete OnServerRead ec len reply s = None"

lemmas session_method_defs [op_defs] = skip_def start_op_def closing_def andthen_def unless_destroying_def
  on_error_def connect_to_database_def start_def read_client_startup_def read_client_startup_after_ssl_def
  check_server_ssl_support_def handle_ssl_request_def perform_ssl_handshake_def relay_to_server_def
  bridge_client_to_server_def bridge_server_to_client_def forward_to_server_def forward_to_client_def
  on_query_result_def client_read_error_def server_read_error_def

lemmas session_handler_defs [op_defs] = on_resolved_def on_connected_def on_client_startup_def
  on_client_startup_ssl_def on_startup_sent_ssl_def on_ssl_request_sent_def on_ssl_reply_def on_n_sent_def
  on_s_sent_def on_client_handshake_def on_server_handshake_def on_relayed_def on_response_sent_def
  on_forwarded_def on_to_client_def

subsection \<open>Closing a session\<close>

text \<open>The fields a session's closing leaves alone.\<close>

lemma close_at_frame [simp]:
  "is_destroying (close_at e s) = is_destroying s"
  "open_at d (close_at e s) \<longleftrightarrow> d \<noteq> e \<and> open_at d s"
  by (cases e; cases d; simp add: open_at_def shut_def split: option.splits)+

declare close_at.simps [simp del]

fun call_target :: "socket_call \<Rightarrow> endpoint" where
  "call_target (Cancel e) = e"
| "call_target (SslShutdown e) = e"
| "call_target (Close e) = e"

text \<open>The calls of \<^verbatim>\<open>cleanup_sockets\<close>, in its order; each is made for the sockets that are open.\<close>

definition cleanup_calls :: "socket_call list" where
  "cleanup_calls = [Cancel ClientSsl, Cancel ServerSsl, Cancel ClientTcp, Cancel ServerTcp,
      SslShutdown ClientSsl, SslShutdown ServerSsl,
      Close ClientSsl, Close ServerSsl, Close ClientTcp, Close ServerTcp]"

lemma cleanup_sockets_log:
  "snd (cleanup_sockets s) = filter (\<lambda>c. open_at (call_target c) s) cleanup_calls"
  by (cases "open_at ClientSsl s"; cases "open_at ServerSsl s"; cases "open_at ClientTcp s"; cases "open_at ServerTcp s";
      simp add: cleanup_sockets_def cleanup_calls_def guarded_def)

lemma cleanup_sockets_closes: "\<not> open_at e (fst (cleanup_sockets s))"
  by (cases "open_at ClientSsl s"; cases "open_at ServerSsl s"; cases "open_at ClientTcp s"; cases "open_at ServerTcp s";
      cases e; simp add: cleanup_sockets_def guarded_def)

lemma cleanup_sockets_keeps:
  assumes "\<And>e s. P s \<Longrightarrow> P (close_at e s)" and "P s"
  shows "P (fst (cleanup_sockets s))"
proof -
  have "P (fst (guarded c p))" if "P (fst p)" for c p
    using that assms(1) by (cases p) (auto simp: guarded_def split: socket_call.splits)
  then have keep: "P (fst (fold guarded cs p))" if "P (fst p)" for cs p
    using that by (induction cs arbitrary: p) auto
  show ?thesis unfolding cleanup_sockets_def by (rule keep) (simp add: assms(2))
qed

text \<open>Apart from the sockets and \<^verbatim>\<open>is_destroying_\<close>, closing changes no member.\<close>

definition same_data :: "session \<Rightarrow> session \<Rightarrow> bool" where
  "same_data s t \<longleftrightarrow> client_buffer t = client_buffer s \<and> server_buffer t = server_buffer s \<and>
     client_ssl_context t = client_ssl_context s \<and> server_ssl_context t = server_ssl_context s \<and>
     startup_packet t = startup_packet s \<and> current_query t = current_query s \<and>
     cached_response t = cached_response s \<and> db_host t = db_host s \<and> db_port t = db_port s \<and>
     ssl_enabled t = ssl_enabled s \<and> client_closed t = client_closed s \<and> server_closed t = server_closed s \<and>
     (client_socket t = None \<longleftrightarrow> client_socket s = None) \<and> (server_socket t = None \<longleftrightarrow> server_socket s = None) \<and>
     (client_ssl_socket t = None \<longleftrightarrow> client_ssl_socket s = None) \<and>
     (server_ssl_socket t = None \<longleftrightarrow> server_ssl_socket s = None)"

lemma same_data_close: "same_data s (close s)" and is_destroying_close [simp]: "is_destroying (close s)"
proof -
  have step: "same_data s (close_at e t)" if "same_data s t" for e t
    using that by (cases e) (simp_all add: same_data_def close_at.simps shut_def)
  show "same_data s (close s)"
    unfolding close_def close_log_def
    by (auto simp: same_data_def[of s s] intro!: cleanup_sockets_keeps[of "same_data s"] step)
       (simp add: same_data_def)
  show "is_destroying (close s)"
    unfolding close_def close_log_def
    by (auto intro!: cleanup_sockets_keeps[of is_destroying])
qed

text \<open>The two states of a session's connections: before the TLS handshakes both plain sockets are
  there and no TLS stream, after the handshakes were begun it is the other way round.\<close>

definition plain :: "session \<Rightarrow> bool" where
  "plain s \<longleftrightarrow> client_socket s \<noteq> None \<and> server_socket s \<noteq> None \<and>
     client_ssl_socket s = None \<and> server_ssl_socket s = None \<and> \<not> ssl_enabled s"

definition tls :: "session \<Rightarrow> bool" where
  "tls s \<longleftrightarrow> client_socket s = None \<and> server_socket s = None \<and>
     client_ssl_socket s \<noteq> None \<and> server_ssl_socket s \<noteq> None"

lemma close_frame [simp]:
  "client_buffer (close s) = client_buffer s" "server_buffer (close s) = server_buffer s"
  "current_query (close s) = current_query s" "ssl_enabled (close s) = ssl_enabled s"
  "plain (close s) = plain s" "tls (close s) = tls s"
  using same_data_close[of s] by (auto simp: same_data_def plain_def tls_def)

subsection \<open>Completing operations\<close>

text \<open>What the completed operation did to the session before its handler runs: a read filled the
  front of the buffer, a connect opened the socket. (Whether a connect that failed leaves the
  socket open makes no difference: its handler closes the session.)\<close>

definition fill :: "string \<Rightarrow> string \<Rightarrow> string" where
  "fill data buffer = data @ drop (length data) buffer"

lemma fill_simps [simp]:
  "take (length data) (fill data buffer) = data"
  "length data \<le> length buffer \<Longrightarrow> length (fill data buffer) = length buffer"
  by (simp_all add: fill_def)

fun deliver :: "async_op \<Rightarrow> error_code \<Rightarrow> string \<Rightarrow> session \<Rightarrow> session" where
  "deliver (AsyncReadSome e hnd) ec data s =
     (if failed ec then s
      else if e = ClientTcp \<or> e = ClientSsl then s\<lparr>client_buffer := fill data (client_buffer s)\<rparr>
      else s\<lparr>server_buffer := fill data (server_buffer s)\<rparr>)"
| "deliver (AsyncConnect hnd) ec data s =
     (if failed ec then s else s\<lparr>server_socket := Some \<lparr>is_open = True\<rparr>\<rparr>)"
| "deliver (AsyncResolve host service hnd) ec data s = s"
| "deliver (AsyncReadByte e hnd) ec data s = s"
| "deliver (AsyncWrite e bytes hnd) ec data s = s"
| "deliver (AsyncHandshake e hnd) ec data s = s"

definition first_byte :: "string \<Rightarrow> char" where
  "first_byte data = (case data of [] \<Rightarrow> NUL | c # _ \<Rightarrow> c)"

text \<open>The startup dialogue runs one operation at a time: each outcome completes the operation in flight,
  and the dialogue is over when a handler starts none or several. The result is the list
  of completed operations, the session and the operations then in flight.\<close>

fun negotiate :: "(error_code \<times> string) list \<Rightarrow> async_op \<Rightarrow> session \<Rightarrow>
    (async_op list \<times> session \<times> async_op list) option" where
  "negotiate [] op s = Some ([], s, [op])"
| "negotiate ((ec, data) # outcomes) op s = do {
     (s', ops) \<leftarrow> on_complete (op_handler op) ec (length data) (first_byte data) (deliver op ec data s);
     (if length ops = 1
      then do { (trace, r) \<leftarrow> negotiate outcomes (ops ! 0) s'; Some (op # trace, r) }
      else if outcomes = [] then Some ([op], s', ops) else None)
   }"

definition buffers_ok :: "session \<Rightarrow> bool" where
  "buffers_ok s \<longleftrightarrow> length (client_buffer s) = BUFSIZE \<and> length (server_buffer s) = BUFSIZE"

lemma resize_full: "length b = n \<Longrightarrow> resize n b = b"
  by (simp add: resize_def)

subsection \<open>Properties\<close>

text \<open>Property C17: the first \<^verbatim>\<open>close\<close> marks the session, and makes on each open socket, and on no
  other, the calls cancel, TLS shutdown (TLS streams only) and close, with every cancel before
  every shutdown and every shutdown before every close; then no socket is open, and
  closing again does nothing. The destructor leaves no socket open either.\<close>

theorem close_releases_sockets:
  assumes "\<not> is_destroying s" and "close_log s = (s', log)"
  shows "is_destroying s' \<and> (\<forall>e. \<not> open_at e s') \<and>
    log = filter (\<lambda>c. open_at (call_target c) s)
      [Cancel ClientSsl, Cancel ServerSsl, Cancel ClientTcp, Cancel ServerTcp,
       SslShutdown ClientSsl, SslShutdown ServerSsl,
       Close ClientSsl, Close ServerSsl, Close ClientTcp, Close ServerTcp] \<and>
    close_log s' = (s', []) \<and> (\<forall>e. \<not> open_at e (destroy_session s))"
proof -
  let ?s = "s\<lparr>is_destroying := True\<rparr>"
  from assms have "s' = close s" by (simp add: close_def)
  then have "is_destroying s'" by simp
  moreover have "open_at e ?s = open_at e s" for e by (cases e) (simp_all add: open_at_def)
  moreover have "cleanup_sockets ?s = (s', log)" using assms by (simp add: close_log_def)
  moreover have "\<not> open_at e (destroy_session s)" for e
    using cleanup_sockets_closes[of e ?s] by (cases e) (simp_all add: destroy_session_def open_at_def)
  ultimately show ?thesis
    using cleanup_sockets_closes[of _ ?s] cleanup_sockets_log[of ?s]
    by (simp add: close_log_def cleanup_calls_def)
qed

theorem close_releases_sockets_witness:
  "snd (close_log (new_session tls_ok ''db'' 5432)) = [Cancel ClientTcp, Close ClientTcp]"
proof -
  obtain s' log where c: "close_log (new_session tls_ok ''db'' 5432) = (s', log)"
    by (cases "close_log (new_session tls_ok ''db'' 5432)")
  have "\<not> is_destroying (new_session tls_ok ''db'' 5432)" by (simp add: new_session_def)
  from close_releases_sockets[OF this c] c show ?thesis
    by (simp add: new_session_def open_at_def)
qed

text \<open>Property C8: the startup dialogue when the server accepts TLS. The client's eight bytes are
  recognised, the proxy asks the server itself, answers \<^verbatim>\<open>S\<close>, does both handshakes, the client's
  first, relays the startup packet byte for byte over TLS and then reads from both sides over
  TLS.\<close>

theorem ssl_accepted:
  assumes "plain s" and "buffers_ok s" and "\<not> is_destroying s" and "\<not> server_closed s"
    and "server_socket s = Some \<lparr>is_open = True\<rparr>"
    and "is_ssl_request request 8" and "length request = 8"
    and "length startup \<le> BUFSIZE"
    and "makes_streams (client_ssl_context s)" and "makes_streams (server_ssl_context s)"
  shows "\<exists>s'. negotiate [(success, request), (success, []), (success, ''S''), (success, []), (success, []),
        (success, []), (success, startup), (success, [])] (AsyncReadSome ClientTcp OnClientStartup) s =
      Some ([AsyncReadSome ClientTcp OnClientStartup, AsyncWrite ServerTcp ssl_request_data OnSslRequestSent,
             AsyncReadByte ServerTcp OnSslReply, AsyncWrite ClientTcp ''S'' OnSSent,
             AsyncHandshake ClientSsl OnClientHandshake, AsyncHandshake ServerSsl OnServerHandshake,
             AsyncReadSome ClientSsl OnClientStartupSsl, AsyncWrite ServerSsl startup OnStartupSentSsl],
            s', [AsyncReadSome ServerSsl OnServerRead, AsyncReadSome ClientSsl OnClientRead]) \<and>
      tls s' \<and> ssl_enabled s'"
  using assms
  by (auto simp: session_method_defs session_handler_defs plain_def tls_def buffers_ok_def isServerSslEnabled_def
      is_ssl_request_def fill_def first_byte_def BUFSIZE_def resize_full nth_append)

theorem ssl_accepted_witness:
  "\<exists>s'. negotiate [(success, ssl_request_data), (success, []), (success, ''S''), (success, []), (success, []),
        (success, []), (success, ''hello''), (success, [])] (AsyncReadSome ClientTcp OnClientStartup)
        ((new_session tls_ok ''db'' 5432)\<lparr>server_socket := Some \<lparr>is_open = True\<rparr>\<rparr>) =
      Some ([AsyncReadSome ClientTcp OnClientStartup, AsyncWrite ServerTcp ssl_request_data OnSslRequestSent,
             AsyncReadByte ServerTcp OnSslReply, AsyncWrite ClientTcp ''S'' OnSSent,
             AsyncHandshake ClientSsl OnClientHandshake, AsyncHandshake ServerSsl OnServerHandshake,
             AsyncReadSome ClientSsl OnClientStartupSsl, AsyncWrite ServerSsl ''hello'' OnStartupSentSsl],
            s', [AsyncReadSome ServerSsl OnServerRead, AsyncReadSome ClientSsl OnClientRead])"
proof -
  let ?s = "(new_session tls_ok ''db'' 5432)\<lparr>server_socket := Some \<lparr>is_open = True\<rparr>\<rparr>"
  have "plain ?s" "buffers_ok ?s" "\<not> is_destroying ?s" "\<not> server_closed ?s"
    "server_socket ?s = Some \<lparr>is_open = True\<rparr>"
    "makes_streams (client_ssl_context ?s)" "makes_streams (server_ssl_context ?s)"
    by (simp_all add: new_session_def plain_def buffers_ok_def BUFSIZE_def)
  moreover have "is_ssl_request ssl_request_data 8" "length ssl_request_data = 8" "length ''hello'' \<le> BUFSIZE"
    by (simp_all add: is_ssl_request_def ssl_request_data_def BUFSIZE_def)
  ultimately show ?thesis by (blast dest: ssl_accepted)
qed

text \<open>Property C25: the startup dialogue when the server declines TLS: the proxy answers \<^verbatim>\<open>N\<close> to the client
  and then sends the client's SSLRequest on to the server, which has already declined one;
  the startup packet the client sends after the \<^verbatim>\<open>N\<close> is treated as traffic of the bridge.\<close>

theorem ssl_refused_relays_request:
  assumes "plain s" and "buffers_ok s" and "\<not> is_destroying s" and "\<not> server_closed s"
    and "server_socket s = Some \<lparr>is_open = True\<rparr>"
    and "is_ssl_request request 8" and "length request = 8" and "reply \<noteq> CHR ''S''"
  shows "\<exists>s'. negotiate [(success, request), (success, []), (success, [reply]), (success, []), (success, [])]
        (AsyncReadSome ClientTcp OnClientStartup) s =
      Some ([AsyncReadSome ClientTcp OnClientStartup, AsyncWrite ServerTcp ssl_request_data OnSslRequestSent,
             AsyncReadByte ServerTcp OnSslReply, AsyncWrite ClientTcp ''N'' OnNSent,
             AsyncWrite ServerTcp request OnRelayed],
            s', [AsyncReadSome ClientTcp OnClientRead, AsyncReadSome ServerTcp OnServerRead]) \<and>
      plain s'"
  using assms
  by (auto simp: session_method_defs session_handler_defs plain_def buffers_ok_def isServerSslEnabled_def
      getServerSocket_def is_ssl_request_def fill_def first_byte_def BUFSIZE_def nth_append)

theorem ssl_refused_relays_request_witness:
  "\<exists>s'. negotiate [(success, ssl_request_data), (success, []), (success, ''N''), (success, []), (success, [])]
        (AsyncReadSome ClientTcp OnClientStartup)
        ((new_session tls_ok ''db'' 5432)\<lparr>server_socket := Some \<lparr>is_open = True\<rparr>\<rparr>) =
      Some ([AsyncReadSome ClientTcp OnClientStartup, AsyncWrite ServerTcp ssl_request_data OnSslRequestSent,
             AsyncReadByte ServerTcp OnSslReply, AsyncWrite ClientTcp ''N'' OnNSent,
             AsyncWrite ServerTcp ssl_request_data OnRelayed],
            s', [AsyncReadSome ClientTcp OnClientRead, AsyncReadSome ServerTcp OnServerRead])"
  (is "\<exists>s'. ?negotiated s'")
proof -
  let ?s = "(new_session tls_ok ''db'' 5432)\<lparr>server_socket := Some \<lparr>is_open = True\<rparr>\<rparr>"
  have "plain ?s" "buffers_ok ?s" "\<not> is_destroying ?s" "\<not> server_closed ?s"
    "server_socket ?s = Some \<lparr>is_open = True\<rparr>"
    by (simp_all add: new_session_def plain_def buffers_ok_def BUFSIZE_def)
  moreover have "is_ssl_request ssl_request_data 8" "length ssl_request_data = 8" "CHR ''N'' \<noteq> CHR ''S''"
    by (simp_all add: is_ssl_request_def ssl_request_data_def)
  ultimately have "\<exists>s'. ?negotiated s' \<and> plain s'" by (rule ssl_refused_relays_request)
  then show ?thesis by blast
qed

text \<open>Property C15: failures while TLS is set up. If a stream cannot be made the session is closed and
  no socket stays open, also the one that had been moved into a stream already. A failed handshake
  with the client always closes the session; a failed handshake with the server closes it only if the
  error is unexpected, otherwise the session is left as it is with no operation started, and it is
  its destructor that closes the sockets.\<close>

theorem tls_setup_failures:
  assumes "\<not> is_destroying s" and "failed ec"
  shows "(plain s \<and> \<not> (makes_streams (client_ssl_context s) \<and> makes_streams (server_ssl_context s)) \<longrightarrow>
      (\<exists>s'. on_s_sent success s = Some (s', []) \<and> is_destroying s' \<and> (\<forall>e. \<not> open_at e s'))) \<and>
    on_client_handshake ec s = (close s, []) \<and>
    on_server_handshake ec s = (if is_expected_ssl_error ec then s else close s, []) \<and>
    (\<forall>e. \<not> open_at e (destroy_session s))"
proof -
  have cl: "\<not> open_at e (close t)" if "\<not> is_destroying t" for e t
    using that cleanup_sockets_closes[of e] by (simp add: close_def close_log_def)
  have "\<not> open_at e (destroy_session s)" for e
    using cleanup_sockets_closes[of e "s\<lparr>is_destroying := True\<rparr>"] by (cases e) (simp_all add: destroy_session_def open_at_def)
  then show ?thesis
    using assms cl by (auto simp: on_s_sent_def on_client_handshake_def on_server_handshake_def unless_destroying_def
        plain_def closing_def on_error_def skip_def)
qed

theorem tls_setup_failures_witness:
  "\<exists>s'. on_s_sent success (new_session (\<lparr>makes_streams = False\<rparr>, \<lparr>makes_streams = True\<rparr>) ''db'' 5432) = Some (s', []) \<and>
    (\<forall>e. \<not> open_at e s')"
proof -
  let ?s = "new_session (\<lparr>makes_streams = False\<rparr>, \<lparr>makes_streams = True\<rparr>) ''db'' 5432"
  let ?ec = "\<lparr>ec_category = SslCategory, ec_value = 1, ec_message = ''no shared cipher''\<rparr>"
  have "plain ?s" "\<not> is_destroying ?s" "failed ?ec" "\<not> makes_streams (client_ssl_context ?s)"
    by (simp_all add: new_session_def plain_def failed_def)
  with tls_setup_failures[of ?s ?ec] show ?thesis by blast
qed

text \<open>Property C24: a new session first resolves the database host. The service name is the decimal
  text of the port up to 32767 and the text of a negative number above, because the port is a
  \<^verbatim>\<open>short\<close>. After resolving and connecting it waits for the client's first packet; if either
  fails the session is closed and no operation is left.\<close>

theorem connect_dialogue:
  assumes "failed ec"
  shows "\<exists>service. start (new_session ctxs host port) =
      (new_session ctxs host port, [AsyncResolve host service (OnResolved AfterStart)]) \<and>
    (if unat port < 32768 then service = dec_nat (unat port) \<and> dec_value service = unat port
     else service = CHR ''-'' # dec_nat (65536 - unat port)) \<and>
    (\<exists>s'. negotiate [(success, []), (success, [])] (AsyncResolve host service (OnResolved AfterStart)) (new_session ctxs host port) =
        Some ([AsyncResolve host service (OnResolved AfterStart), AsyncConnect (OnConnected AfterStart)],
              s', [AsyncReadSome ClientTcp OnClientStartup]) \<and>
      plain s' \<and> buffers_ok s' \<and> \<not> is_destroying s' \<and> open_at ClientTcp s' \<and> open_at ServerTcp s') \<and>
    negotiate [(ec, [])] (AsyncResolve host service (OnResolved AfterStart)) (new_session ctxs host port) =
      Some ([AsyncResolve host service (OnResolved AfterStart)], close (new_session ctxs host port), []) \<and>
    negotiate [(success, []), (ec, [])] (AsyncResolve host service (OnResolved AfterStart)) (new_session ctxs host port) =
      Some ([AsyncResolve host service (OnResolved AfterStart), AsyncConnect (OnConnected AfterStart)],
            close (new_session ctxs host port), [])"
proof -
  have port: "if unat port < 32768 then to_string (sint port) = dec_nat (unat port) \<and>
       dec_value (to_string (sint port)) = unat port
     else to_string (sint port) = CHR ''-'' # dec_nat (65536 - unat port)"
    using unsigned_less[of port] by (auto simp: to_string_def sint_u16 nat_diff_distrib dec_nat_value)
  show ?thesis
    using assms port
    by (intro exI[of _ "to_string (sint port)"])
      (simp add: session_method_defs session_handler_defs new_session_def plain_def buffers_ok_def
        resize_full open_at_def)
qed

theorem connect_dialogue_witness:
  "snd (start (new_session tls_ok ''db'' 5432)) = [AsyncResolve ''db'' ''5432'' (OnResolved AfterStart)] \<and>
   snd (start (new_session tls_ok ''db'' 40000)) = [AsyncResolve ''db'' ''-25536'' (OnResolved AfterStart)]"
proof -
  let ?ec = "\<lparr>ec_category = SystemCategory, ec_value = 111, ec_message = ''Connection refused''\<rparr>"
  have "failed ?ec" by (simp add: failed_def)
  from connect_dialogue[OF this, of tls_ok "''db''" 5432] connect_dialogue[OF this, of tls_ok "''db''" 40000]
  show ?thesis by (auto simp: dec_nat.simps)
qed

end
