(* ===== verification/Session_Chains.thy ===== *)
theory Session_Chains
  imports Session_Model
begin

section \<open>The operations of a session form two chains\<close>

text \<open>
  Until the bridge starts, a session has one operation in flight. From then on it has a client chain (read
  from the client, forward or answer, read again) and a server chain (read from the server,
  forward to the client, read again). This theory classifies the handlers and shows
  that each of them continues its own chain only, keeps the connections in the state its
  successor relies on, and dereferences no empty \<^verbatim>\<open>std::optional\<close>.
\<close>

fun startup_handler :: "handler \<Rightarrow> bool" where
  "startup_handler OnClientRead = False"
| "startup_handler OnResponseSent = False"
| "startup_handler OnForwarded = False"
| "startup_handler OnServerRead = False"
| "startup_handler OnToClient = False"
| "startup_handler hnd = True"

definition client_handler :: "handler \<Rightarrow> bool" where
  "client_handler hnd \<longleftrightarrow> hnd \<in> {OnClientRead, OnResponseSent, OnForwarded}"

definition server_handler :: "handler \<Rightarrow> bool" where
  "server_handler hnd \<longleftrightarrow> hnd \<in> {OnServerRead, OnToClient}"

lemma handler_class:
  "startup_handler hnd \<or> client_handler hnd \<or> server_handler hnd"
  by (cases hnd) (simp_all add: client_handler_def server_handler_def)

text \<open>Which operation a handler belongs to.\<close>

fun op_typed :: "async_op \<Rightarrow> bool" where
  "op_typed (AsyncResolve host service hnd) = (\<exists>c. hnd = OnResolved c)"
| "op_typed (AsyncConnect hnd) = (\<exists>c. hnd = OnConnected c)"
| "op_typed (AsyncReadSome e hnd) =
     (e = ClientTcp \<and> hnd \<in> {OnClientStartup, OnClientRead} \<or>
      e = ClientSsl \<and> hnd \<in> {OnClientStartupSsl, OnClientRead} \<or>
      e \<in> {ServerTcp, ServerSsl} \<and> hnd = OnServerRead)"
| "op_typed (AsyncReadByte e hnd) = (e = ServerTcp \<and> hnd = OnSslReply)"
| "op_typed (AsyncWrite e bytes hnd) =
     (if e = ServerTcp \<or> e = ServerSsl
      then hnd \<in> {OnSslRequestSent, OnRelayed, OnStartupSentSsl, OnForwarded}
      else hnd \<in> {OnNSent, OnSSent, OnResponseSent, OnToClient})"
| "op_typed (AsyncHandshake e hnd) = (e = ClientSsl \<and> hnd = OnClientHandshake \<or> e = ServerSsl \<and> hnd = OnServerHandshake)"

text \<open>The state of the connections a handler relies on.\<close>

definition bridged :: "session \<Rightarrow> bool" where
  "bridged s \<longleftrightarrow> plain s \<or> tls s \<and> ssl_enabled s"

fun handler_ok :: "handler \<Rightarrow> session \<Rightarrow> bool" where
  "handler_ok OnClientHandshake s = tls s"
| "handler_ok OnServerHandshake s = tls s"
| "handler_ok OnClientStartupSsl s = (tls s \<and> ssl_enabled s)"
| "handler_ok OnStartupSentSsl s = (tls s \<and> ssl_enabled s)"
| "handler_ok OnClientRead s = bridged s"
| "handler_ok OnResponseSent s = bridged s"
| "handler_ok OnForwarded s = bridged s"
| "handler_ok OnServerRead s = bridged s"
| "handler_ok OnToClient s = bridged s"
| "handler_ok hnd s = plain s"

definition op_ok :: "session \<Rightarrow> async_op \<Rightarrow> bool" where
  "op_ok s op \<longleftrightarrow> op_typed op \<and> handler_ok (op_handler op) s"

text \<open>The members both chains depend on.\<close>

definition same_wire :: "session \<Rightarrow> session \<Rightarrow> bool" where
  "same_wire s t \<longleftrightarrow> plain t = plain s \<and> tls t = tls s \<and> ssl_enabled t = ssl_enabled s \<and>
     (buffers_ok s \<longrightarrow> buffers_ok t)"

lemma same_wire_refl [simp]: "same_wire s s"
  by (simp add: same_wire_def)

lemma same_wire_close [simp]: "same_wire s (close s)"
  by (simp add: same_wire_def buffers_ok_def)

lemma same_wire_trans: "same_wire s t \<Longrightarrow> same_wire t u \<Longrightarrow> same_wire s u"
  by (auto simp: same_wire_def)

lemma same_wire_fields [simp]:
  "same_wire s (t\<lparr>current_query := q\<rparr>) = same_wire s t"
  "same_wire s (t\<lparr>cached_response := r\<rparr>) = same_wire s t"
  "same_wire s (t\<lparr>client_closed := b\<rparr>) = same_wire s t"
  "same_wire s (t\<lparr>server_closed := b\<rparr>) = same_wire s t"
  "same_wire (s\<lparr>current_query := q\<rparr>) t = same_wire s t"
  by (simp_all add: same_wire_def plain_def tls_def buffers_ok_def)

lemma same_wire_op_ok: "same_wire s t \<Longrightarrow> op_ok s op \<Longrightarrow> op_ok t op"
  by (cases "op_handler op") (auto simp: same_wire_def op_ok_def bridged_def)

lemma same_wire_bridged: "same_wire s t \<Longrightarrow> bridged t = bridged s"
  by (auto simp: same_wire_def bridged_def)

subsection \<open>The chains\<close>

definition startups :: "async_op list \<Rightarrow> nat" where
  "startups ops = length (filter (startup_handler \<circ> op_handler) ops)"

definition clients :: "async_op list \<Rightarrow> nat" where
  "clients ops = length (filter (client_handler \<circ> op_handler) ops)"

definition servers :: "async_op list \<Rightarrow> nat" where
  "servers ops = length (filter (server_handler \<circ> op_handler) ops)"

lemmas chain_defs = startups_def clients_def servers_def

lemma chain_append [simp]:
  "startups (xs @ ys) = startups xs + startups ys" "clients (xs @ ys) = clients xs + clients ys"
  "servers (xs @ ys) = servers xs + servers ys" "startups [] = 0" "clients [] = 0" "servers [] = 0"
  by (simp_all add: chain_defs)

lemma chain_Cons:
  "startups (op # ops) = of_bool (startup_handler (op_handler op)) + startups ops"
  "clients (op # ops) = of_bool (client_handler (op_handler op)) + clients ops"
  "servers (op # ops) = of_bool (server_handler (op_handler op)) + servers ops"
  by (simp_all add: chain_defs)

lemma chain_total: "length ops \<le> startups ops + clients ops + servers ops"
proof (induction ops)
  case (Cons op ops)
  then show ?case using handler_class[of "op_handler op"] by (auto simp: chain_Cons)
qed simp

text \<open>A session with its operations in flight; \<open>waiting\<close> says that its callback waits for a flight.\<close>

definition chains_ok :: "bool \<Rightarrow> async_op list \<Rightarrow> session \<Rightarrow> bool" where
  "chains_ok waiting ops s \<longleftrightarrow>
     startups ops + clients ops + of_bool waiting \<le> 1 \<and> startups ops + servers ops \<le> 1 \<and>
     (\<forall>op \<in> set ops. op_ok s op) \<and> (waiting \<longrightarrow> bridged s) \<and> buffers_ok s"

text \<open>What a method may start when it continues the client chain, or the server chain.\<close>

definition client_continues :: "session \<Rightarrow> session \<times> async_op list \<Rightarrow> bool" where
  "client_continues s = (\<lambda>(t, ops). same_wire s t \<and> length ops \<le> 1 \<and>
     (\<forall>op \<in> set ops. client_handler (op_handler op) \<and> op_ok t op))"

definition server_continues :: "session \<Rightarrow> session \<times> async_op list \<Rightarrow> bool" where
  "server_continues s = (\<lambda>(t, ops). same_wire s t \<and> length ops \<le> 1 \<and>
     (\<forall>op \<in> set ops. server_handler (op_handler op) \<and> op_ok t op))"

lemmas continues_defs = client_continues_def server_continues_def client_handler_def server_handler_def

lemma client_continues_counts:
  assumes "client_continues s (t, ops)"
  shows "startups ops = 0" "clients ops = length ops" "servers ops = 0"
  using assms by (auto simp: continues_defs chain_defs filter_empty_conv filter_id_conv)

lemma server_continues_counts:
  assumes "server_continues s (t, ops)"
  shows "startups ops = 0" "servers ops = length ops" "clients ops = 0"
  using assms by (auto simp: continues_defs chain_defs filter_empty_conv filter_id_conv)

subsection \<open>Every method continues its chain\<close>

lemma on_error_continues [simp]:
  "client_continues s (on_error ec s)" "server_continues s (on_error ec s)"
  by (simp_all add: on_error_def closing_def skip_def continues_defs)

lemma quiet_continues [simp]:
  "client_continues s (skip s)" "client_continues s (closing s)" "server_continues s (skip s)"
  "server_continues s (closing s)"
  by (simp_all add: closing_def skip_def continues_defs)

lemma bridge_client_continues: "bridged s \<Longrightarrow> client_continues s (bridge_client_to_server s)"
  by (auto simp: bridge_client_to_server_def unless_destroying_def)
     (auto simp: start_op_def continues_defs op_ok_def bridged_def plain_def tls_def)

lemma bridge_server_continues: "bridged s \<Longrightarrow> server_continues s (bridge_server_to_client s)"
  by (auto simp: bridge_server_to_client_def unless_destroying_def)
     (auto simp: start_op_def continues_defs op_ok_def)

lemma forward_to_server_continues: "bridged s \<Longrightarrow> client_continues s (forward_to_server len s)"
  by (auto simp: forward_to_server_def) (auto simp: start_op_def continues_defs op_ok_def)

lemma forward_to_client_continues: "bridged s \<Longrightarrow> server_continues s (forward_to_client len s)"
  by (auto simp: forward_to_client_def) (auto simp: start_op_def continues_defs op_ok_def)

lemma read_error_continues:
  "client_continues s (client_read_error ec s)" "server_continues s (server_read_error ec s)"
  by (auto simp: client_read_error_def server_read_error_def Let_def)
     (auto simp: closing_def skip_def continues_defs intro: same_wire_trans[OF _ same_wire_close])

lemma on_query_result_continues:
  assumes "bridged s"
  shows "client_continues s (on_query_result result s)"
proof -
  have "bridged (s\<lparr>cached_response := result\<rparr>)"
    using assms by (simp add: bridged_def plain_def tls_def)
  then show ?thesis
    by (auto simp: on_query_result_def unless_destroying_def Let_def)
       (auto simp: start_op_def skip_def continues_defs op_ok_def)
qed

lemma client_handlers_continue:
  "bridged s \<Longrightarrow> client_continues s (on_response_sent ec s)"
  "bridged s \<Longrightarrow> client_continues s (on_forwarded ec s)"
  by (auto simp: on_response_sent_def on_forwarded_def unless_destroying_def bridge_client_continues)

lemma server_handler_continues: "bridged s \<Longrightarrow> server_continues s (on_to_client ec s)"
  by (auto simp: on_to_client_def unless_destroying_def bridge_server_continues)

text \<open>Both chains are started together, in either order.\<close>

lemma bridge_chains:
  assumes "bridged s" and "buffers_ok s"
  shows "case_prod (\<lambda>t ops. chains_ok False ops t) (andthen bridge_client_to_server bridge_server_to_client s)"
    and "case_prod (\<lambda>t ops. chains_ok False ops t) (andthen bridge_server_to_client bridge_client_to_server s)"
proof -
  obtain t1 ops1 where 1: "bridge_client_to_server s = (t1, ops1)" by fastforce
  obtain u1 vops1 where 3: "bridge_server_to_client s = (u1, vops1)" by fastforce
  from bridge_client_continues[OF assms(1)] 1 have c1: "client_continues s (t1, ops1)" by simp
  from bridge_server_continues[OF assms(1)] 3 have c3: "server_continues s (u1, vops1)" by simp
  from c1 c3 have w: "same_wire s t1" "same_wire s u1" by (auto simp: continues_defs)
  obtain t2 ops2 where 2: "bridge_server_to_client t1 = (t2, ops2)" by fastforce
  obtain u2 vops2 where 4: "bridge_client_to_server u1 = (u2, vops2)" by fastforce
  from w assms(1) bridge_server_continues[of t1] 2 have c2: "server_continues t1 (t2, ops2)"
    by (simp add: same_wire_bridged)
  from w assms(1) bridge_client_continues[of u1] 4 have c4: "client_continues u1 (u2, vops2)"
    by (simp add: same_wire_bridged)
  have s: "same_wire t1 t2" "same_wire u1 u2" "buffers_ok t2" "buffers_ok u2"
    using c2 c4 w assms(2) by (auto simp: client_continues_def server_continues_def same_wire_def)
  show "case_prod (\<lambda>t ops. chains_ok False ops t) (andthen bridge_client_to_server bridge_server_to_client s)"
    using client_continues_counts[OF c1] server_continues_counts[OF c2] c1 c2 s same_wire_op_ok[OF s(1)]
    by (auto simp: andthen_def 1 2 chains_ok_def client_continues_def server_continues_def)
  show "case_prod (\<lambda>t ops. chains_ok False ops t) (andthen bridge_server_to_client bridge_client_to_server s)"
    using server_continues_counts[OF c3] client_continues_counts[OF c4] c3 c4 s same_wire_op_ok[OF s(2)]
    by (auto simp: andthen_def 3 4 chains_ok_def client_continues_def server_continues_def)
qed

lemma chains_ok_quiet [simp]: "chains_ok False [] s \<longleftrightarrow> buffers_ok s"
  by (simp add: chains_ok_def)

lemma chains_ok_single:
  "startup_handler (op_handler op) \<Longrightarrow> op_ok s op \<Longrightarrow> buffers_ok s \<Longrightarrow> chains_ok False [op] s"
  using handler_class[of "op_handler op"]
  by (cases "op_handler op") (auto simp: chains_ok_def chain_Cons client_handler_def server_handler_def)

definition starts_ok :: "session \<times> async_op list \<Rightarrow> bool" where
  "starts_ok = (\<lambda>(t, ops). chains_ok False ops t)"

lemma starts_ok_quiet [simp]:
  "starts_ok (skip s) = buffers_ok s" "starts_ok (closing s) = buffers_ok s" "starts_ok (on_error ec s) = buffers_ok s"
  by (simp_all add: starts_ok_def skip_def closing_def on_error_def) (simp_all add: buffers_ok_def)

lemma starts_ok_start_op:
  "startup_handler (op_handler op) \<Longrightarrow> op_ok s op \<Longrightarrow> buffers_ok s \<Longrightarrow> starts_ok (start_op op s)"
  by (simp add: starts_ok_def start_op_def chains_ok_single)

lemma connect_starts:
  "plain s \<Longrightarrow> buffers_ok s \<Longrightarrow> starts_ok (connect_to_database c s)"
  by (auto simp: connect_to_database_def unless_destroying_def op_ok_def intro!: starts_ok_start_op)

lemma read_startup_starts:
  assumes "buffers_ok s"
  shows "plain s \<Longrightarrow> starts_ok (read_client_startup s)"
    and "tls s \<Longrightarrow> ssl_enabled s \<Longrightarrow> starts_ok (read_client_startup_after_ssl s)"
proof -
  have "s\<lparr>client_buffer := resize BUFSIZE (client_buffer s)\<rparr> = s"
    using assms by (simp add: buffers_ok_def resize_full)
  with assms show "plain s \<Longrightarrow> starts_ok (read_client_startup s)"
    "tls s \<Longrightarrow> ssl_enabled s \<Longrightarrow> starts_ok (read_client_startup_after_ssl s)"
    by (auto simp: read_client_startup_def read_client_startup_after_ssl_def unless_destroying_def op_ok_def
        intro!: starts_ok_start_op)
qed

lemma ssl_methods_start:
  assumes "plain s" and "buffers_ok s"
  shows "starts_ok (check_server_ssl_support s)" "starts_ok (handle_ssl_request s)"
    "starts_ok (perform_ssl_handshake s)" "starts_ok (relay_to_server len s)"
  using assms connect_starts[OF assms]
  by (auto simp: check_server_ssl_support_def handle_ssl_request_def perform_ssl_handshake_def
      relay_to_server_def unless_destroying_def op_ok_def intro!: starts_ok_start_op split: option.split)

lemma connect_callback_starts:
  "plain s \<Longrightarrow> buffers_ok s \<Longrightarrow> starts_ok (run_connect_callback c ec s)"
  by (cases c) (auto simp: unless_destroying_def read_startup_starts ssl_methods_start)

lemma start_starts: "plain s \<Longrightarrow> buffers_ok s \<Longrightarrow> starts_ok (start s)"
  by (auto simp: start_def unless_destroying_def connect_starts)

text \<open>A startup handler is defined and leaves the session with one operation, or with one on
  each side, or closed.\<close>

lemma startup_handlers_start:
  assumes "startup_handler hnd" and ok: "handler_ok hnd s" and b: "buffers_ok s"
  shows "on_complete hnd ec len reply s \<noteq> None \<and> starts_ok (the (on_complete hnd ec len reply s))"
proof (cases hnd)
  case OnClientStartup
  let ?s = "s\<lparr>startup_packet := take len (client_buffer s)\<rparr>"
  from OnClientStartup ok b have "plain ?s" "buffers_ok ?s" by (simp_all add: plain_def buffers_ok_def)
  with OnClientStartup ok b show ?thesis
    by (auto simp: on_client_startup_def unless_destroying_def ssl_methods_start)
next
  case OnServerHandshake
  let ?s = "s\<lparr>ssl_enabled := True\<rparr>"
  from OnServerHandshake ok b have "tls ?s" "ssl_enabled ?s" "buffers_ok ?s"
    by (simp_all add: tls_def buffers_ok_def)
  with OnServerHandshake ok b show ?thesis
    by (auto simp: on_server_handshake_def unless_destroying_def read_startup_starts)
next
  case OnSSent
  let ?s = "s\<lparr>client_ssl_socket := client_socket s, server_ssl_socket := server_socket s,
      client_socket := None, server_socket := None\<rparr>"
  from OnSSent ok b have "tls ?s" "buffers_ok ?s" by (auto simp: tls_def plain_def buffers_ok_def)
  moreover have "buffers_ok (s\<lparr>client_socket := k\<rparr>)"
    "buffers_ok (s\<lparr>client_ssl_socket := k1, client_socket := k2, server_socket := k3\<rparr>)" for k k1 k2 k3
    using b by (simp_all add: buffers_ok_def)
  ultimately show ?thesis
    using OnSSent ok b
    by (auto simp: on_s_sent_def plain_def op_ok_def intro!: starts_ok_start_op)
next
  case OnRelayed
  with ok b bridge_chains[of s] show ?thesis
    by (simp add: on_relayed_def unless_destroying_def bridged_def) (simp add: starts_ok_def)
next
  case OnStartupSentSsl
  with ok b bridge_chains[of s] show ?thesis
    by (simp add: on_startup_sent_ssl_def unless_destroying_def bridged_def) (simp add: starts_ok_def)
qed (use assms in \<open>auto simp: session_handler_defs unless_destroying_def connect_callback_starts ssl_methods_start
      op_ok_def plain_def tls_def intro!: starts_ok_start_op\<close>)

subsection \<open>Slots\<close>

text \<open>The client chain's slot is free when its operation has completed, or while the session waits for a
  flight; the method that runs then refills it. Likewise for the server chain.\<close>

definition client_free :: "async_op list \<Rightarrow> session \<Rightarrow> bool" where
  "client_free ops s \<longleftrightarrow> chains_ok False ops s \<and> startups ops = 0 \<and> clients ops = 0 \<and> bridged s"

definition server_free :: "async_op list \<Rightarrow> session \<Rightarrow> bool" where
  "server_free ops s \<longleftrightarrow> startups ops = 0 \<and> servers ops = 0 \<and> bridged s"

lemma waiting_client_free: "chains_ok True ops s \<longleftrightarrow> client_free ops s"
  by (auto simp: chains_ok_def client_free_def)

lemma completed_client_free:
  "chains_ok wt (as @ op # bs) s \<Longrightarrow> client_handler (op_handler op) \<Longrightarrow> \<not> wt \<and> client_free (as @ bs) s"
  by (auto simp: chains_ok_def client_free_def chain_Cons op_ok_def client_handler_def)

lemma completed_server_free:
  "chains_ok wt (as @ op # bs) s \<Longrightarrow> server_handler (op_handler op) \<Longrightarrow>
   chains_ok wt (as @ bs) s \<and> server_free (as @ bs) s"
  by (auto simp: chains_ok_def server_free_def chain_Cons op_ok_def server_handler_def)

lemma completed_startup:
  assumes "chains_ok wt (as @ op # bs) s" and "startup_handler (op_handler op)"
  shows "\<not> wt \<and> as @ bs = []"
  using assms chain_total[of "as @ bs"] by (auto simp: chains_ok_def chain_Cons)

lemma chains_ok_same_wire: "chains_ok wt ops s \<Longrightarrow> same_wire s t \<Longrightarrow> chains_ok wt ops t"
  using same_wire_op_ok[of s t] same_wire_bridged[of s t]
  by (simp add: chains_ok_def) (simp add: same_wire_def)

lemma client_free_same_wire: "client_free ops s \<Longrightarrow> same_wire s t \<Longrightarrow> client_free ops t"
  using chains_ok_same_wire[of False ops s t] same_wire_bridged[of s t] by (simp add: client_free_def)

lemma server_free_same_wire: "server_free ops s \<Longrightarrow> same_wire s t \<Longrightarrow> server_free ops t"
  using same_wire_bridged[of s t] by (simp add: server_free_def)

lemma client_free_continue:
  assumes "client_free ops s" and "client_continues s r"
  shows "chains_ok False (ops @ snd r) (fst r)"
proof -
  obtain t out where r: "r = (t, out)" by (cases r)
  with assms(2) have c: "same_wire s t" "length out \<le> 1" "\<forall>op \<in> set out. op_ok t op"
    by (auto simp: client_continues_def)
  from assms(1) have "chains_ok False ops t" by (auto simp: client_free_def intro: chains_ok_same_wire c)
  with assms c client_continues_counts[of s t out] r show ?thesis
    by (auto simp: client_free_def chains_ok_def)
qed

lemma server_free_continue:
  assumes "chains_ok wt ops s" and "server_free ops s" and "server_continues s r"
  shows "chains_ok wt (ops @ snd r) (fst r)"
proof -
  obtain t out where r: "r = (t, out)" by (cases r)
  with assms(3) have c: "same_wire s t" "length out \<le> 1" "\<forall>op \<in> set out. op_ok t op"
    by (auto simp: server_continues_def)
  from assms(1) have "chains_ok wt ops t" by (rule chains_ok_same_wire) (rule c)
  with assms c server_continues_counts[of s t out] r show ?thesis
    by (auto simp: server_free_def chains_ok_def)
qed

lemma deliver_same_wire:
  assumes "op_ok s op" and "length data \<le> BUFSIZE"
  shows "same_wire s (deliver op ec data s)"
proof (cases op)
  case (AsyncReadSome e hnd)
  have "same_wire s (s\<lparr>client_buffer := fill data (client_buffer s)\<rparr>)"
    "same_wire s (s\<lparr>server_buffer := fill data (server_buffer s)\<rparr>)"
    using assms(2) by (simp_all add: same_wire_def plain_def tls_def buffers_ok_def)
  with AsyncReadSome show ?thesis by simp
next
  case (AsyncConnect hnd)
  with assms(1) have "plain s" by (auto simp: op_ok_def)
  with AsyncConnect show ?thesis by (simp add: same_wire_def plain_def tls_def buffers_ok_def)
qed simp_all

end
