(* ===== verification/LRU_Spec.thy ===== *)
theory LRU_Spec
  imports Prelude
begin

section \<open>The contract of an LRU cache\<close>

text \<open>
  What the L1 cache promises, apart from how \<^verbatim>\<open>QueryCache.cpp\<close> implements it: a list of
  entries, oldest first, with two operations. The locale \<open>lru_store\<close> is the interface
  a client of the cache relies on, and what holds after any sequence of operations is
  proved once there: a lookup returns the value stored last under its key, the number of
  entries stays within the capacity (or where it was, if it started above), and an entry is still there as long as fewer
  other keys than the capacity were used since it was stored.
\<close>

subsection \<open>The specification\<close>

type_synonym entries = "(string \<times> string) list"

definition lru_get :: "string \<Rightarrow> entries \<Rightarrow> string option \<times> entries" where
  "lru_get k xs =
     (case map_of xs k of
        None \<Rightarrow> (None, xs)
      | Some v \<Rightarrow> (Some v, filter (\<lambda>p. fst p \<noteq> k) xs @ [(k, v)]))"

definition lru_put :: "nat \<Rightarrow> string \<Rightarrow> string \<Rightarrow> entries \<Rightarrow> entries" where
  "lru_put cap k v xs =
     (if map_of xs k \<noteq> None then filter (\<lambda>p. fst p \<noteq> k) xs @ [(k, v)]
      else (if cap \<le> length xs then tl xs else xs) @ [(k, v)])"

datatype cache_op = Get string | Put string string

fun op_key :: "cache_op \<Rightarrow> string" where
  "op_key (Get k) = k"
| "op_key (Put k v) = k"

fun lru_step :: "nat \<Rightarrow> cache_op \<Rightarrow> entries \<Rightarrow> entries" where
  "lru_step cap (Get k) xs = snd (lru_get k xs)"
| "lru_step cap (Put k v) xs = lru_put cap k v xs"

text \<open>The value stored last under a key, starting from what was there.\<close>

fun last_put :: "string \<Rightarrow> cache_op list \<Rightarrow> string option \<Rightarrow> string option" where
  "last_put k [] d = d"
| "last_put k (Get j # ops) d = last_put k ops d"
| "last_put k (Put j v # ops) d = last_put k ops (if j = k then Some v else d)"

subsection \<open>Facts about one step\<close>

lemma lru_step_distinct:
  assumes "distinct (map fst xs)"
  shows "distinct (map fst (lru_step cap op xs))"
proof -
  have "k \<notin> fst ` set (tl xs)" if "map_of xs k = None" for k
    using that by (cases xs) (auto simp: map_of_eq_None_iff split: if_splits)
  with assms show ?thesis
    by (cases op) (auto simp: lru_get_def lru_put_def distinct_fst_filter distinct_tl map_tl
      map_of_eq_None_iff split: option.splits)
qed

lemma lru_step_length:
  assumes "distinct (map fst xs)" and "length xs \<le> cap" and "0 < cap"
  shows "length (lru_step cap op xs) \<le> cap"
proof -
  have "Suc (length (filter (\<lambda>p. fst p \<noteq> k) xs)) \<le> cap" if "map_of xs k \<noteq> None" for k
    using that length_filter_fst_neq[OF assms(1), of k] assms(2)
    by (simp add: map_of_eq_None_iff)
  with assms show ?thesis
    by (cases op) (auto simp: lru_get_def lru_put_def split: option.splits)
qed

lemma lru_step_full:
  assumes "distinct (map fst xs)" and "cap \<le> length xs" and "0 < cap"
  shows "length (lru_step cap op xs) = length xs"
proof -
  have "Suc (length (filter (\<lambda>p. fst p \<noteq> k) xs)) = length xs" if "map_of xs k \<noteq> None" for k
    using that length_filter_fst_neq[OF assms(1), of k] assms(2,3) by (simp add: map_of_eq_None_iff)
  with assms show ?thesis
    by (cases op) (auto simp: lru_get_def lru_put_def split: option.splits)
qed

lemma lru_step_lookup:
  assumes "distinct (map fst xs)" and "map_of (lru_step cap op xs) k = Some v"
  shows "last_put k [op] (map_of xs k) = Some v"
proof (cases op)
  case (Get j)
  with assms show ?thesis
    by (auto simp: lru_get_def map_add_def split: option.splits if_splits)
next
  case (Put j w)
  have "map_of (tl xs) k = Some v \<Longrightarrow> map_of xs k = Some v"
    using assms(1) by (cases xs) (auto simp: map_of_eq_None_iff image_iff dest!: map_of_SomeD)
  with Put assms(2) show ?thesis
    by (auto simp: lru_put_def map_add_def split: option.splits if_splits)
qed

text \<open>The entry of \<open>k\<close> is present and only keys of \<open>S\<close> are more recent.\<close>

definition recent :: "string \<Rightarrow> string \<Rightarrow> string set \<Rightarrow> entries \<Rightarrow> bool" where
  "recent k v S xs \<longleftrightarrow> (\<exists>ys zs. xs = ys @ (k, v) # zs \<and> fst ` set zs \<subseteq> S)"

lemma recent_lookup: "distinct (map fst xs) \<Longrightarrow> recent k v S xs \<Longrightarrow> map_of xs k = Some v"
  by (auto simp: recent_def map_of_eq_None_iff map_add_def split: option.splits)

lemma recent_last: "recent k v S (xs @ [(k, v)])"
  unfolding recent_def by (rule exI[of _ xs], rule exI[of _ "[]"]) simp

lemma recent_move:
  assumes "recent k v S xs" and "j \<noteq> k" and "j \<in> S"
  shows "recent k v S (filter (\<lambda>p. fst p \<noteq> j) xs @ [(j, w)])"
proof -
  from assms(1) obtain ys zs where xs: "xs = ys @ (k, v) # zs" and zs: "fst ` set zs \<subseteq> S"
    by (auto simp: recent_def)
  have "filter (\<lambda>p. fst p \<noteq> j) xs @ [(j, w)] =
      filter (\<lambda>p. fst p \<noteq> j) ys @ (k, v) # (filter (\<lambda>p. fst p \<noteq> j) zs @ [(j, w)])"
    using assms(2) by (simp add: xs)
  moreover have "fst ` set (filter (\<lambda>p. fst p \<noteq> j) zs @ [(j, w)]) \<subseteq> S"
    using zs assms(3) by auto
  ultimately show ?thesis unfolding recent_def by blast
qed

text \<open>The eviction takes another entry: were \<open>k\<close> the oldest, all others would be in \<open>S\<close>,
  and with the new key they would be too many.\<close>

lemma recent_evict:
  assumes rec: "recent k v S xs" and dist: "distinct (map fst xs)"
    and S: "finite S" "card S < cap" "j \<in> S" and j: "map_of xs j = None"
    and full: "cap \<le> length xs"
  shows "recent k v S (tl xs @ [(j, w)])"
proof -
  from rec obtain ys zs where xs: "xs = ys @ (k, v) # zs" and zs: "fst ` set zs \<subseteq> S"
    by (auto simp: recent_def)
  have "ys \<noteq> []"
  proof
    assume "ys = []"
    with xs dist have "card (fst ` set zs) = length zs"
      using distinct_card[of "map fst zs"] by simp
    moreover have "j \<notin> fst ` set xs" using j by (simp only: map_of_eq_None_iff not_False_eq_True)
    then have "fst ` set zs \<subseteq> S - {j}" using zs xs by auto
    then have "card (fst ` set zs) \<le> card S - 1"
      using S by (metis card_Diff_singleton card_mono finite_Diff)
    moreover have "0 < card S" using S by (auto simp: card_gt_0_iff)
    ultimately show False
      using full S(2) xs \<open>ys = []\<close> by simp
  qed
  then have "tl xs @ [(j, w)] = tl ys @ (k, v) # (zs @ [(j, w)])"
    by (simp add: xs)
  moreover have "fst ` set (zs @ [(j, w)]) \<subseteq> S"
    using zs S(3) by auto
  ultimately show ?thesis unfolding recent_def by blast
qed

lemma recent_append:
  assumes "recent k v S xs" and "j \<in> S"
  shows "recent k v S (xs @ [(j, w)])"
proof -
  from assms(1) obtain ys zs where "xs = ys @ (k, v) # zs" and "fst ` set zs \<subseteq> S"
    by (auto simp: recent_def)
  with assms(2) have "xs @ [(j, w)] = ys @ (k, v) # (zs @ [(j, w)]) \<and> fst ` set (zs @ [(j, w)]) \<subseteq> S"
    by auto
  then show ?thesis unfolding recent_def by blast
qed

lemma recent_step:
  assumes rec: "recent k v S xs" and dist: "distinct (map fst xs)"
    and S: "finite S" "card S < cap" and key: "op_key op \<in> insert k S"
    and last: "last_put k [op] (Some v) = Some w"
  shows "recent k w S (lru_step cap op xs)"
proof (cases "op_key op = k")
  case True
  have "map_of xs k = Some v" using recent_lookup[OF dist rec] .
  with True last show ?thesis
    by (cases op) (auto simp: lru_get_def lru_put_def intro: recent_last)
next
  case False
  with key have j: "op_key op \<in> S" by simp
  from False last have w: "w = v" by (cases op) auto
  show ?thesis
  proof (cases op)
    case (Get j')
    with False j rec w show ?thesis
      by (auto simp: lru_get_def intro: recent_move split: option.splits)
  next
    case (Put j' u)
    with False j have j': "j' \<noteq> k" "j' \<in> S" by auto
    show ?thesis
    proof (cases "map_of xs j'")
      case None
      with recent_evict[OF rec dist S j'(2) None] recent_append[OF rec j'(2)] show ?thesis
        by (simp add: Put w lru_put_def)
    next
      case (Some y)
      with recent_move[OF rec j'] show ?thesis
        by (simp add: Put w lru_put_def)
    qed
  qed
qed

subsection \<open>Sequences of operations\<close>

abbreviation lru_run :: "nat \<Rightarrow> cache_op list \<Rightarrow> entries \<Rightarrow> entries" where
  "lru_run cap ops xs \<equiv> fold (lru_step cap) ops xs"

lemma lru_run_distinct:
  "distinct (map fst xs) \<Longrightarrow> distinct (map fst (lru_run cap ops xs))"
  by (induction ops arbitrary: xs) (auto intro: lru_step_distinct)

lemma lru_run_length:
  "distinct (map fst xs) \<Longrightarrow> length xs \<le> cap \<Longrightarrow> 0 < cap \<Longrightarrow> length (lru_run cap ops xs) \<le> cap"
  by (induction ops arbitrary: xs) (auto intro: lru_step_distinct lru_step_length)

lemma lru_run_full:
  "distinct (map fst xs) \<Longrightarrow> cap \<le> length xs \<Longrightarrow> 0 < cap \<Longrightarrow> length (lru_run cap ops xs) = length xs"
  by (induction ops arbitrary: xs) (simp_all add: lru_step_distinct lru_step_full)

lemma last_put_Cons: "last_put k (op # ops) d = last_put k ops (last_put k [op] d)"
  by (cases op) auto

lemma last_put_mono:
  "d = None \<or> e = d \<Longrightarrow> last_put k ops d = Some v \<Longrightarrow> last_put k ops e = Some v"
proof (induction ops arbitrary: d e)
  case (Cons op ops)
  then show ?case
    by (cases op) (auto split: if_splits dest: Cons.IH[of None] Cons.IH[of d])
qed auto

lemma lru_run_lookup:
  assumes "distinct (map fst xs)" and "map_of (lru_run cap ops xs) k = Some v"
  shows "last_put k ops (map_of xs k) = Some v"
  using assms
proof (induction ops arbitrary: xs)
  case (Cons op ops)
  from Cons.prems have "last_put k ops (map_of (lru_step cap op xs) k) = Some v"
    by (intro Cons.IH) (auto intro: lru_step_distinct)
  then have "last_put k ops (last_put k [op] (map_of xs k)) = Some v"
    by (rule last_put_mono[rotated])
      (metis lru_step_lookup[OF Cons.prems(1)] option.exhaust)
  then show ?case by (simp add: last_put_Cons[of k op ops])
qed simp

lemma lru_run_recent:
  assumes "recent k v S xs" and "distinct (map fst xs)" and "finite S" "card S < cap"
    and "\<forall>op \<in> set ops. op_key op \<in> insert k S"
  shows "\<exists>w. last_put k ops (Some v) = Some w \<and> recent k w S (lru_run cap ops xs)"
  using assms
proof (induction ops arbitrary: xs v)
  case (Cons op ops)
  have "last_put k [op] (Some v) \<noteq> None"
    by (cases op) auto
  then obtain u where u: "last_put k [op] (Some v) = Some u" by blast
  have "recent k u S (lru_step cap op xs)"
    using Cons.prems u by (intro recent_step) auto
  then have "\<exists>w. last_put k ops (Some u) = Some w \<and> recent k w S (lru_run cap ops (lru_step cap op xs))"
    using Cons.prems by (intro Cons.IH lru_step_distinct) auto
  with u show ?case by (simp add: last_put_Cons[of k op ops])
qed simp

text \<open>An entry survives as long as fewer other keys than the capacity are used.\<close>

lemma lru_retention:
  assumes dist: "distinct (map fst xs)" and cap: "0 < cap"
    and few: "card (op_key ` set ops - {k}) < cap"
  shows "map_of (lru_run cap ops (lru_put cap k v xs)) k = last_put k ops (Some v)"
proof -
  let ?S = "op_key ` set ops - {k}" and ?xs = "lru_put cap k v xs"
  have d: "distinct (map fst ?xs)"
    using lru_step_distinct[OF dist, of cap "Put k v"] by simp
  have "recent k v ?S ?xs"
    by (auto simp: lru_put_def intro: recent_last)
  then obtain w where "last_put k ops (Some v) = Some w" "recent k w ?S (lru_run cap ops ?xs)"
    using lru_run_recent[of k v ?S ?xs cap ops] d few by auto
  with lru_run_distinct[OF d] show ?thesis
    using recent_lookup by metis
qed

subsection \<open>The interface\<close>

text \<open>Running a sequence against an implementation; \<open>None\<close> is undefined behaviour.\<close>

fun cache_run :: "(string \<Rightarrow> 's \<Rightarrow> (string option \<times> 's) option) \<Rightarrow>
    (string \<Rightarrow> string \<Rightarrow> 's \<Rightarrow> 's option) \<Rightarrow> cache_op list \<Rightarrow> 's \<Rightarrow> 's option" where
  "cache_run get put [] s = Some s"
| "cache_run get put (Get k # ops) s =
     do { (r, s') \<leftarrow> get k s; cache_run get put ops s' }"
| "cache_run get put (Put k v # ops) s =
     do { s' \<leftarrow> put k v s; cache_run get put ops s' }"

locale lru_store =
  fixes get :: "string \<Rightarrow> 's \<Rightarrow> (string option \<times> 's) option"
    and put :: "string \<Rightarrow> string \<Rightarrow> 's \<Rightarrow> 's option"
    and abs :: "'s \<Rightarrow> entries" and inv :: "'s \<Rightarrow> bool" and cap :: "'s \<Rightarrow> nat"
  assumes get_spec: "inv s \<Longrightarrow> \<exists>s'. get k s = Some (fst (lru_get k (abs s)), s') \<and>
      abs s' = snd (lru_get k (abs s)) \<and> inv s' \<and> cap s' = cap s"
    and put_spec: "inv s \<Longrightarrow> \<exists>s'. put k v s = Some s' \<and>
      abs s' = lru_put (cap s) k v (abs s) \<and> inv s' \<and> cap s' = cap s"
    and distinct_abs: "inv s \<Longrightarrow> distinct (map fst (abs s))"
    and cap_pos: "inv s \<Longrightarrow> 0 < cap s"
begin

lemma run_refines:
  "inv s \<Longrightarrow> \<exists>s'. cache_run get put ops s = Some s' \<and> abs s' = lru_run (cap s) ops (abs s) \<and>
     inv s' \<and> cap s' = cap s"
proof (induction ops arbitrary: s)
  case (Cons op ops)
  then show ?case
  proof (cases op)
    case (Get k)
    with get_spec[OF Cons.prems, of k] Cons.IH show ?thesis by fastforce
  next
    case (Put k v)
    with put_spec[OF Cons.prems, of k v] Cons.IH show ?thesis by fastforce
  qed
qed simp

lemma get_result: "inv s \<Longrightarrow> \<exists>s'. get k s = Some (map_of (abs s) k, s')"
  using get_spec[of s k] by (auto simp: lru_get_def split: option.splits)

lemma run_then_get:
  assumes "inv s"
  obtains s' s'' where "cache_run get put ops s = Some s'" and "inv s'"
    and "get k s' = Some (map_of (lru_run (cap s) ops (abs s)) k, s'')"
  using run_refines[OF assms, of ops] get_result by metis

lemma coherence:
  assumes inv: "inv s" and run: "cache_run get put ops s = Some s'" and hit: "get k s' = Some (Some v, s'')"
  shows "last_put k ops (map_of (abs s) k) = Some v"
proof -
  from run_then_get[OF inv, of ops k] run hit
  have "map_of (lru_run (cap s) ops (abs s)) k = Some v" by (metis option.inject prod.inject)
  then show ?thesis using lru_run_lookup[OF distinct_abs[OF inv]] by blast
qed

lemma bounded:
  assumes "inv s" and "length (abs s) \<le> cap s" and "cache_run get put ops s = Some s'"
  shows "length (abs s') \<le> cap s'"
  using run_refines[OF assms(1), of ops] assms lru_run_length[OF distinct_abs[OF assms(1)]] cap_pos
  by (metis option.inject)

lemma overfull:
  assumes "inv s" and "cap s \<le> length (abs s)"
  shows "\<exists>s'. cache_run get put ops s = Some s' \<and> inv s' \<and> length (abs s') = length (abs s)"
  using run_refines[OF assms(1), of ops] assms lru_run_full[OF distinct_abs[OF assms(1)]] cap_pos
  by (metis (no_types))

lemma retention:
  assumes inv: "inv s" and few: "card (op_key ` set ops - {k}) < cap s"
  shows "\<exists>s' s''. cache_run get put (Put k v # ops) s = Some s' \<and>
     get k s' = Some (last_put k ops (Some v), s'')"
proof -
  from run_then_get[OF inv, of "Put k v # ops" k]
  obtain s' s'' where "cache_run get put (Put k v # ops) s = Some s'"
    and "get k s' = Some (map_of (lru_run (cap s) ops (lru_put (cap s) k v (abs s))) k, s'')"
    by (metis fold_simps(2) lru_step.simps(2))
  with lru_retention[OF distinct_abs[OF inv] cap_pos[OF inv] few] show ?thesis by auto
qed

end

end
