(* ===== verification/L1_Cache.thy ===== *)
theory L1_Cache
  imports LRU_Spec
begin

section \<open>The L1 cache of QueryCache\<close>

text \<open>
  The in-memory LRU cache of \<^verbatim>\<open>src/src/QueryCache/QueryCache.cpp\<close>: the members
  \<^verbatim>\<open>l1_max_size_\<close>, \<^verbatim>\<open>l1_enabled_\<close>, \<^verbatim>\<open>l1_list_\<close> and \<^verbatim>\<open>l1_map_\<close> and the operations
  \<^verbatim>\<open>getL1\<close>, \<^verbatim>\<open>putL1\<close>, \<^verbatim>\<open>setL1MaxSize\<close>, \<^verbatim>\<open>setL1Enabled\<close> and the L1 part of \<^verbatim>\<open>clear\<close>.

  \<^verbatim>\<open>std::list\<close> nodes keep their identity when they are spliced, and \<^verbatim>\<open>l1_map_\<close> holds
  iterators to them. The model keeps that aliasing: a node of the list carries an
  identifier, an iterator is such an identifier, and using an iterator whose node is
  gone, or the front of an empty list, is undefined behaviour (\<open>None\<close>).
\<close>

subsection \<open>State and operations\<close>

record LRUNode =
  node_key :: string
  node_value :: string

type_synonym node_id = nat
type_synonym lru_list = "(node_id \<times> LRUNode) list"

record l1_cache =
  l1_max_size :: size_t
  l1_enabled :: bool
  l1_list :: lru_list
  l1_map :: "(string \<times> node_id) list"
  l1_next :: node_id

text \<open>The default member initialisers; \<open>l1_next\<close> is the allocator of list nodes.\<close>

definition l1_init :: l1_cache where
  "l1_init = \<lparr>l1_max_size = 1000, l1_enabled = True, l1_list = [], l1_map = [], l1_next = 0\<rparr>"

definition setL1MaxSize :: "size_t \<Rightarrow> l1_cache \<Rightarrow> l1_cache" where
  "setL1MaxSize max_size c = c\<lparr>l1_max_size := max_size\<rparr>"

definition clear_l1 :: "l1_cache \<Rightarrow> l1_cache" where
  "clear_l1 c = c\<lparr>l1_list := [], l1_map := []\<rparr>"

definition setL1Enabled :: "bool \<Rightarrow> l1_cache \<Rightarrow> l1_cache" where
  "setL1Enabled enabled c =
     (let c' = c\<lparr>l1_enabled := enabled\<rparr> in if \<not> enabled then clear_l1 c' else c')"

text \<open>\<^verbatim>\<open>l1_list_.splice(l1_list_.end(), l1_list_, it)\<close>: the node moves to the back.\<close>

definition splice_to_end :: "node_id \<Rightarrow> lru_list \<Rightarrow> lru_list option" where
  "splice_to_end it xs =
     (case map_of xs it of
        None \<Rightarrow> None
      | Some n \<Rightarrow> Some (filter (\<lambda>p. fst p \<noteq> it) xs @ [(it, n)]))"

text \<open>\<^verbatim>\<open>it->value = result\<close>\<close>

definition set_node_value :: "node_id \<Rightarrow> string \<Rightarrow> lru_list \<Rightarrow> lru_list option" where
  "set_node_value it r xs =
     (case map_of xs it of
        None \<Rightarrow> None
      | Some n \<Rightarrow> Some (AList.update it (n\<lparr>node_value := r\<rparr>) xs))"

text \<open>\<^verbatim>\<open>getL1\<close> has two critical sections: a lookup under the shared lock and, if it
  found the key, a second lookup that moves the node under the exclusive lock.\<close>

definition getL1_probe :: "string \<Rightarrow> l1_cache \<Rightarrow> bool" where
  "getL1_probe query c = (map_of (l1_map c) query \<noteq> None)"

definition getL1_touch :: "string \<Rightarrow> l1_cache \<Rightarrow> (string option \<times> l1_cache) option" where
  "getL1_touch query c =
     (case map_of (l1_map c) query of
        None \<Rightarrow> Some (None, c)
      | Some it \<Rightarrow> do {
          xs \<leftarrow> splice_to_end it (l1_list c);
          n \<leftarrow> map_of xs it;
          Some (Some (node_value n), c\<lparr>l1_list := xs\<rparr>)
        })"

definition getL1 :: "string \<Rightarrow> l1_cache \<Rightarrow> (string option \<times> l1_cache) option" where
  "getL1 query c =
     (if \<not> l1_enabled c then Some (None, c)
      else if \<not> getL1_probe query c then Some (None, c)
      else getL1_touch query c)"

text \<open>The eviction of \<^verbatim>\<open>putL1\<close>: \<^verbatim>\<open>oldest->key\<close> dereferences \<^verbatim>\<open>l1_list_.begin()\<close>.\<close>

definition evict_oldest :: "l1_cache \<Rightarrow> l1_cache option" where
  "evict_oldest c =
     (case l1_list c of
        [] \<Rightarrow> None
      | (i, n) # rest \<Rightarrow>
          Some (c\<lparr>l1_map := AList.delete (node_key n) (l1_map c), l1_list := rest\<rparr>))"

definition push_node :: "string \<Rightarrow> string \<Rightarrow> l1_cache \<Rightarrow> l1_cache" where
  "push_node query result c =
     c\<lparr>l1_list := l1_list c @ [(l1_next c, \<lparr>node_key = query, node_value = result\<rparr>)],
       l1_map := AList.update query (l1_next c) (l1_map c),
       l1_next := Suc (l1_next c)\<rparr>"

text \<open>\<^verbatim>\<open>putL1\<close> reads \<^verbatim>\<open>l1_enabled_\<close> before it takes the exclusive lock; what it does under
  the lock is a section of its own.\<close>

definition putL1_locked :: "string \<Rightarrow> string \<Rightarrow> l1_cache \<Rightarrow> l1_cache option" where
  "putL1_locked query result c =
     (case map_of (l1_map c) query of
        Some it \<Rightarrow> do {
          xs \<leftarrow> set_node_value it result (l1_list c);
          ys \<leftarrow> splice_to_end it xs;
          Some (c\<lparr>l1_list := ys\<rparr>)
        }
      | None \<Rightarrow> do {
          c' \<leftarrow> (if unat (l1_max_size c) \<le> length (l1_list c) then evict_oldest c else Some c);
          Some (push_node query result c')
        })"

definition putL1 :: "string \<Rightarrow> string \<Rightarrow> l1_cache \<Rightarrow> l1_cache option" where
  "putL1 query result c =
     (if \<not> l1_enabled c then Some c else putL1_locked query result c)"

text \<open>\<^verbatim>\<open>l1_map_.size()\<close>, which \<^verbatim>\<open>getStats\<close> reports.\<close>

definition l1_size :: "l1_cache \<Rightarrow> nat" where
  "l1_size c = length (l1_map c)"

lemmas l1_op_defs [op_defs] = setL1MaxSize_def clear_l1_def setL1Enabled_def splice_to_end_def
  set_node_value_def getL1_probe_def getL1_touch_def getL1_def evict_oldest_def push_node_def
  putL1_locked_def putL1_def l1_size_def

subsection \<open>Invariant: the map indexes exactly the nodes of the list\<close>

definition l1_inv :: "l1_cache \<Rightarrow> bool" where
  "l1_inv c \<longleftrightarrow>
     distinct (map fst (l1_list c)) \<and>
     distinct (map (node_key \<circ> snd) (l1_list c)) \<and>
     distinct (map fst (l1_map c)) \<and>
     (\<forall>k i. map_of (l1_map c) k = Some i \<longleftrightarrow> (\<exists>n. (i, n) \<in> set (l1_list c) \<and> node_key n = k)) \<and>
     (\<forall>i \<in> fst ` set (l1_list c). i < l1_next c)"

text \<open>What the cache holds, oldest entry first.\<close>

definition l1_abs :: "l1_cache \<Rightarrow> (string \<times> string) list" where
  "l1_abs c = map (\<lambda>(i, n). (node_key n, node_value n)) (l1_list c)"

subsection \<open>Shared facts about nodes and entries\<close>

lemma l1_invD:
  assumes "l1_inv c"
  shows "distinct (map fst (l1_list c))" "distinct (map (node_key \<circ> snd) (l1_list c))"
    "distinct (map fst (l1_map c))"
    "map_of (l1_map c) k = Some i \<longleftrightarrow> (\<exists>n. (i, n) \<in> set (l1_list c) \<and> node_key n = k)"
    "(i, n) \<in> set (l1_list c) \<Longrightarrow> i < l1_next c"
  using assms unfolding l1_inv_def by force+

lemma l1_node_exists:
  assumes "l1_inv c" and "map_of (l1_map c) k = Some i"
  obtains n where "map_of (l1_list c) i = Some n" and "node_key n = k"
    and "(i, n) \<in> set (l1_list c)"
proof -
  from assms obtain n where n: "(i, n) \<in> set (l1_list c)" "node_key n = k"
    using l1_invD(4) by blast
  with l1_invD(1)[OF assms(1)] have "map_of (l1_list c) i = Some n" by simp
  with n that show ?thesis by blast
qed

lemma l1_key_absent:
  assumes "l1_inv c" and "map_of (l1_map c) k = None" and "(i, n) \<in> set (l1_list c)"
  shows "node_key n \<noteq> k"
  using assms l1_invD(4)[OF assms(1), of k i] by auto

lemma fst_l1_abs [simp]: "map fst (l1_abs c) = map (node_key \<circ> snd) (l1_list c)"
  by (auto simp: l1_abs_def)

lemma length_l1_abs [simp]: "length (l1_abs c) = length (l1_list c)"
  by (simp add: l1_abs_def)

lemma l1_distinct_abs: "l1_inv c \<Longrightarrow> distinct (map fst (l1_abs c))"
  by (simp add: l1_invD)

lemma map_of_l1_abs:
  assumes "l1_inv c"
  shows "map_of (l1_abs c) k =
    (case map_of (l1_map c) k of None \<Rightarrow> None
     | Some i \<Rightarrow> map_option node_value (map_of (l1_list c) i))"
proof (cases "map_of (l1_map c) k")
  case None
  have "k \<notin> fst ` set (l1_abs c)"
    using l1_key_absent[OF assms None] by (fastforce simp: l1_abs_def)
  then have "map_of (l1_abs c) k = None" by (simp add: map_of_eq_None_iff)
  with None show ?thesis by simp
next
  case (Some i)
  then obtain n where n: "map_of (l1_list c) i = Some n" "node_key n = k"
    "(i, n) \<in> set (l1_list c)"
    using l1_node_exists[OF assms] by blast
  then have "(k, node_value n) \<in> set (l1_abs c)"
    by (force simp: l1_abs_def)
  then have "map_of (l1_abs c) k = Some (node_value n)"
    using l1_distinct_abs[OF assms] by simp
  with Some n show ?thesis by simp
qed

lemma l1_abs_None_iff:
  assumes "l1_inv c"
  shows "map_of (l1_abs c) k = None \<longleftrightarrow> map_of (l1_map c) k = None"
proof (cases "map_of (l1_map c) k")
  case (Some i)
  then show ?thesis
    using l1_node_exists[OF assms Some] by (auto simp: map_of_l1_abs[OF assms])
qed (simp add: map_of_l1_abs[OF assms])

text \<open>Removing a node by iterator removes the entry of its key.\<close>

lemma entries_filter:
  assumes "distinct (map fst xs)" and "distinct (map (node_key \<circ> snd) xs)"
    and "(i, n) \<in> set xs"
  shows "map (\<lambda>(i, n). (node_key n, node_value n)) (filter (\<lambda>p. fst p \<noteq> i) xs) =
         filter (\<lambda>p. fst p \<noteq> node_key n) (map (\<lambda>(i, n). (node_key n, node_value n)) xs)"
proof -
  have "fst p = i \<longleftrightarrow> node_key (snd p) = node_key n" if "p \<in> set xs" for p
    using that assms by (auto simp: distinct_map inj_on_def) (metis snd_conv fst_conv)+
  then have "filter (\<lambda>p. fst p \<noteq> i) xs = filter (\<lambda>p. node_key (snd p) \<noteq> node_key n) xs"
    by (intro filter_cong) auto
  then show ?thesis by (simp add: filter_map comp_def case_prod_beta)
qed

text \<open>Moving an indexed node to the back, possibly with a new value, keeps the index.\<close>

lemma l1_inv_move:
  assumes inv: "l1_inv c" and node: "map_of (l1_map c) k = Some i"
    and xs: "xs = filter (\<lambda>p. fst p \<noteq> i) (l1_list c) @ [(i, n')]" and key: "node_key n' = k"
  shows "l1_inv (c\<lparr>l1_list := xs\<rparr>)"
proof -
  from l1_node_exists[OF inv node] obtain n where n: "node_key n = k"
    "(i, n) \<in> set (l1_list c)" by blast
  have uniq: "j = i" if "(j, m) \<in> set (l1_list c)" "node_key m = k" for j m
    using that n l1_invD(4)[OF inv, of k] by (metis node option.inject)
  have mem: "(j, m) \<in> set xs \<longleftrightarrow> (j, m) \<in> set (l1_list c) \<and> j \<noteq> i \<or> (j, m) = (i, n')" for j m
    using xs by auto
  have "distinct (map fst xs)"
    using l1_invD(1)[OF inv] by (auto simp: xs distinct_fst_filter)
  moreover have "distinct (map (node_key \<circ> snd) xs)"
    using l1_invD(2)[OF inv] uniq key by (auto simp: xs distinct_fst_filter)
  moreover have "map_of (l1_map c) k' = Some j \<longleftrightarrow> (\<exists>m. (j, m) \<in> set xs \<and> node_key m = k')" for k' j
  proof (cases "k' = k")
    case True
    then show ?thesis using node key uniq mem by auto
  next
    case False
    have "m = n" if "(i, m) \<in> set (l1_list c)" for m
      using that n(2) l1_invD(1)[OF inv] by (metis map_of_SomeI option.inject)
    with False show ?thesis
      using l1_invD(4)[OF inv, of k' j] key n(1) mem by auto
  qed
  moreover have "\<forall>j \<in> fst ` set xs. j < l1_next c"
    using l1_invD(5)[OF inv] n(2) by (auto simp: xs)
  ultimately show ?thesis
    using l1_invD(3)[OF inv] by (simp add: l1_inv_def)
qed

lemma l1_abs_move:
  assumes inv: "l1_inv c" and node: "map_of (l1_map c) k = Some i"
    and xs: "xs = filter (\<lambda>p. fst p \<noteq> i) (l1_list c) @ [(i, n')]" and key: "node_key n' = k"
  shows "l1_abs (c\<lparr>l1_list := xs\<rparr>) = filter (\<lambda>p. fst p \<noteq> k) (l1_abs c) @ [(k, node_value n')]"
proof -
  from l1_node_exists[OF inv node] obtain n where n: "node_key n = k"
    "(i, n) \<in> set (l1_list c)" by blast
  with entries_filter[OF l1_invD(1,2)[OF inv] n(2)] show ?thesis
    by (simp add: l1_abs_def xs key)
qed

subsection \<open>Every operation keeps the invariant and refines the specification\<close>

lemma l1_inv_init [inv_intros]: "l1_inv l1_init"
  by (simp add: l1_init_def l1_inv_def)

lemma l1_inv_setL1MaxSize [inv_intros]: "l1_inv c \<Longrightarrow> l1_inv (setL1MaxSize m c)"
  by (simp add: l1_inv_def setL1MaxSize_def)

lemma l1_inv_clear [inv_intros]: "l1_inv (clear_l1 c)"
  by (simp add: l1_inv_def clear_l1_def)

lemma l1_inv_setL1Enabled [inv_intros]: "l1_inv c \<Longrightarrow> l1_inv (setL1Enabled b c)"
  by (auto simp: setL1Enabled_def Let_def l1_inv_clear) (auto simp: l1_inv_def)

lemma getL1_touch_refines:
  assumes inv: "l1_inv c"
  shows "\<exists>c'. getL1_touch q c = Some (fst (lru_get q (l1_abs c)), c') \<and>
     l1_abs c' = snd (lru_get q (l1_abs c)) \<and> l1_inv c' \<and>
     l1_enabled c' = l1_enabled c \<and> l1_max_size c' = l1_max_size c"
proof (cases "map_of (l1_map c) q")
  case None
  then have "map_of (l1_abs c) q = None" by (simp add: map_of_l1_abs[OF inv])
  with None inv show ?thesis by (auto simp: getL1_touch_def lru_get_def)
next
  case (Some i)
  then obtain n where n: "map_of (l1_list c) i = Some n" "node_key n = q"
    "(i, n) \<in> set (l1_list c)"
    using l1_node_exists[OF inv] by blast
  let ?xs = "filter (\<lambda>p. fst p \<noteq> i) (l1_list c) @ [(i, n)]"
  have "getL1_touch q c = Some (Some (node_value n), c\<lparr>l1_list := ?xs\<rparr>)"
    using Some n by (simp add: getL1_touch_def splice_to_end_def map_add_def)
  moreover have "lru_get q (l1_abs c) =
      (Some (node_value n), filter (\<lambda>p. fst p \<noteq> q) (l1_abs c) @ [(q, node_value n)])"
    using Some n by (simp add: lru_get_def map_of_l1_abs[OF inv])
  ultimately show ?thesis
    using l1_inv_move[OF inv Some refl n(2)] l1_abs_move[OF inv Some refl n(2)] by simp
qed

lemma l1_inv_getL1_touch [inv_intros]:
  "l1_inv c \<Longrightarrow> getL1_touch q c = Some (r, c') \<Longrightarrow> l1_inv c'"
  using getL1_touch_refines[of c q] by auto

lemma getL1_refines:
  assumes inv: "l1_inv c" and en: "l1_enabled c"
  shows "\<exists>c'. getL1 q c = Some (fst (lru_get q (l1_abs c)), c') \<and>
     l1_abs c' = snd (lru_get q (l1_abs c)) \<and> l1_inv c' \<and>
     l1_enabled c' = l1_enabled c \<and> l1_max_size c' = l1_max_size c"
proof (cases "getL1_probe q c")
  case True
  then show ?thesis using getL1_touch_refines[OF inv] en by (simp add: getL1_def)
next
  case False
  then have "map_of (l1_abs c) q = None"
    by (simp add: getL1_probe_def l1_abs_None_iff[OF inv])
  with False en inv show ?thesis by (auto simp: getL1_def lru_get_def)
qed

lemma evict_oldest_Some:
  assumes inv: "l1_inv c" and ne: "l1_list c \<noteq> []"
  obtains c' where "evict_oldest c = Some c'" and "l1_inv c'" and "l1_abs c' = tl (l1_abs c)"
    and "l1_enabled c' = l1_enabled c" and "l1_max_size c' = l1_max_size c"
    and "\<And>q. map_of (l1_map c) q = None \<Longrightarrow> map_of (l1_map c') q = None"
proof -
  from ne obtain i n rest where l: "l1_list c = (i, n) # rest" by (cases "l1_list c") auto
  let ?c = "c\<lparr>l1_map := AList.delete (node_key n) (l1_map c), l1_list := rest\<rparr>"
  have ev: "evict_oldest c = Some ?c" by (simp add: evict_oldest_def l)
  have idx: "map_of (l1_map c) k = Some j \<longleftrightarrow> (\<exists>m. (j, m) \<in> set ((i, n) # rest) \<and> node_key m = k)" for k j
    using l1_invD(4)[OF inv] l by simp
  have fresh: "(j, m) \<in> set rest \<Longrightarrow> node_key m \<noteq> node_key n" for j m
    using l1_invD(2)[OF inv] by (force simp: l)
  have bound: "\<forall>j \<in> fst ` set rest. j < l1_next c"
    using l1_invD(5)[OF inv] by (fastforce simp: l)
  have "l1_inv ?c"
    using l1_invD(1,2,3)[OF inv] bound idx fresh
    by (auto simp: l1_inv_def l distinct_delete delete_conv')
  moreover have "l1_abs ?c = tl (l1_abs c)" by (simp add: l1_abs_def l)
  ultimately show ?thesis using that ev by (simp add: delete_conv')
qed

lemma push_node_refines:
  assumes inv: "l1_inv c" and q: "map_of (l1_map c) q = None"
  shows "l1_inv (push_node q r c)" and "l1_abs (push_node q r c) = l1_abs c @ [(q, r)]"
proof -
  have "node_key m \<noteq> q" if "(j, m) \<in> set (l1_list c)" for j m
    using l1_key_absent[OF inv q that] .
  moreover have "j \<noteq> l1_next c" if "(j, m) \<in> set (l1_list c)" for j m
    using l1_invD(5)[OF inv that] by simp
  ultimately show "l1_inv (push_node q r c)"
    using l1_invD(1,2,3)[OF inv] l1_invD(4,5)[OF inv] q
    by (fastforce simp: l1_inv_def push_node_def distinct_update update_conv' less_SucI)
  show "l1_abs (push_node q r c) = l1_abs c @ [(q, r)]"
    by (simp add: push_node_def l1_abs_def)
qed

lemma putL1_present:
  assumes inv: "l1_inv c" and i: "map_of (l1_map c) q = Some i"
  shows "\<exists>c'. putL1_locked q r c = Some c' \<and> l1_inv c' \<and>
     l1_abs c' = filter (\<lambda>p. fst p \<noteq> q) (l1_abs c) @ [(q, r)] \<and>
     l1_enabled c' = l1_enabled c \<and> l1_max_size c' = l1_max_size c"
proof -
  obtain n where n: "map_of (l1_list c) i = Some n" "node_key n = q" "(i, n) \<in> set (l1_list c)"
    using l1_node_exists[OF inv i] by blast
  let ?n = "n\<lparr>node_value := r\<rparr>"
  let ?xs = "filter (\<lambda>p. fst p \<noteq> i) (l1_list c) @ [(i, ?n)]"
  have "putL1_locked q r c = Some (c\<lparr>l1_list := ?xs\<rparr>)"
    using i n by (simp add: putL1_locked_def set_node_value_def splice_to_end_def update_conv'
        filter_alist_update)
  then show ?thesis
    using l1_inv_move[OF inv i refl, of ?n] l1_abs_move[OF inv i refl, of ?n] n(2) by simp
qed

lemma putL1_absent:
  assumes inv: "l1_inv c" and q: "map_of (l1_map c) q = None"
    and room: "0 < unat (l1_max_size c) \<or> l1_list c \<noteq> []"
  shows "\<exists>c'. putL1_locked q r c = Some c' \<and> l1_inv c' \<and>
     l1_abs c' = (if unat (l1_max_size c) \<le> length (l1_list c) then tl (l1_abs c) else l1_abs c) @ [(q, r)] \<and>
     l1_enabled c' = l1_enabled c \<and> l1_max_size c' = l1_max_size c"
proof (cases "unat (l1_max_size c) \<le> length (l1_list c)")
  case True
  with room have "l1_list c \<noteq> []" by auto
  then obtain d where d: "evict_oldest c = Some d" "l1_inv d" "l1_abs d = tl (l1_abs c)"
    "l1_enabled d = l1_enabled c" "l1_max_size d = l1_max_size c" "map_of (l1_map d) q = None"
    using evict_oldest_Some[OF inv] q by metis
  have "putL1_locked q r c = Some (push_node q r d)"
    using q d(1) True by (simp add: putL1_locked_def)
  then show ?thesis
    using push_node_refines[OF d(2) d(6), of r] d True by (simp add: push_node_def)
next
  case False
  then have "putL1_locked q r c = Some (push_node q r c)"
    using q by (simp add: putL1_locked_def)
  then show ?thesis
    using push_node_refines[OF inv q, of r] False by (simp add: push_node_def)
qed

lemma putL1_disabled: "\<not> l1_enabled c \<Longrightarrow> putL1 q r c = Some c"
  by (simp add: putL1_def)

lemma getL1_disabled: "\<not> l1_enabled c \<Longrightarrow> getL1 q c = Some (None, c)"
  by (simp add: getL1_def)

lemma putL1_locked_refines:
  assumes inv: "l1_inv c" and cap: "0 < unat (l1_max_size c)"
  shows "\<exists>c'. putL1_locked q r c = Some c' \<and>
     l1_abs c' = lru_put (unat (l1_max_size c)) q r (l1_abs c) \<and>
     l1_inv c' \<and> l1_enabled c' = l1_enabled c \<and> l1_max_size c' = l1_max_size c"
proof (cases "map_of (l1_map c) q")
  case None
  then have "map_of (l1_abs c) q = None" by (simp add: l1_abs_None_iff[OF inv])
  with putL1_absent[OF inv None, of r] cap show ?thesis by (auto simp: lru_put_def)
next
  case (Some i)
  then have "map_of (l1_abs c) q \<noteq> None"
    by (simp add: l1_abs_None_iff[OF inv])
  with putL1_present[OF inv Some, of r] show ?thesis by (auto simp: lru_put_def)
qed

lemma putL1_locked_undefined_iff:
  assumes inv: "l1_inv c"
  shows "putL1_locked q r c = None \<longleftrightarrow> l1_list c = [] \<and> l1_max_size c = 0"
proof (cases "map_of (l1_map c) q")
  case None
  have "putL1_locked q r c = None" if "l1_list c = []" "l1_max_size c = 0"
    using that None by (simp add: putL1_locked_def evict_oldest_def)
  moreover have "putL1_locked q r c \<noteq> None" if "l1_list c \<noteq> [] \<or> l1_max_size c \<noteq> 0"
    using putL1_absent[OF inv None] that by (metis option.distinct(1) unat_gt_0)
  ultimately show ?thesis by blast
next
  case (Some i)
  then have "l1_list c \<noteq> []" using l1_node_exists[OF inv Some] by force
  with putL1_present[OF inv Some, of r] show ?thesis by auto
qed

lemma l1_inv_putL1_locked [inv_intros]:
  assumes inv: "l1_inv c" and put: "putL1_locked q r c = Some c'"
  shows "l1_inv c'"
proof (cases "map_of (l1_map c) q")
  case None
  have "0 < unat (l1_max_size c) \<or> l1_list c \<noteq> []"
    using putL1_locked_undefined_iff[OF inv, of q r] put by (auto simp: unat_gt_0)
  with putL1_absent[OF inv None, of r] put show ?thesis by auto
next
  case (Some i)
  with putL1_present[OF inv Some, of r] put show ?thesis by auto
qed

lemma l1_inv_putL1 [inv_intros]: "l1_inv c \<Longrightarrow> putL1 q r c = Some c' \<Longrightarrow> l1_inv c'"
  by (auto simp: putL1_def split: if_splits intro: l1_inv_putL1_locked)

lemma l1_inv_getL1 [inv_intros]: "l1_inv c \<Longrightarrow> getL1 q c = Some (r, c') \<Longrightarrow> l1_inv c'"
  by (auto simp: getL1_def split: if_splits intro: l1_inv_getL1_touch)

lemma getL1_total: "l1_inv c \<Longrightarrow> getL1 q c \<noteq> None"
  using getL1_touch_refines[of c q] by (auto simp: getL1_def)

lemma putL1_refines:
  assumes "l1_inv c" and "l1_enabled c" and "0 < unat (l1_max_size c)"
  shows "\<exists>c'. putL1 q r c = Some c' \<and> l1_abs c' = lru_put (unat (l1_max_size c)) q r (l1_abs c) \<and>
     l1_inv c' \<and> l1_enabled c' = l1_enabled c \<and> l1_max_size c' = l1_max_size c"
  using putL1_locked_refines[OF assms(1,3)] assms(2) by (simp add: putL1_def)

text \<open>Under the invariant the one way into undefined behaviour is an insertion into an
  empty cache whose maximum is 0.\<close>

lemma putL1_undefined_iff:
  "l1_inv c \<Longrightarrow> putL1 q r c = None \<longleftrightarrow> l1_enabled c \<and> l1_list c = [] \<and> l1_max_size c = 0"
  by (simp add: putL1_def putL1_locked_undefined_iff)

text \<open>A cache that is disabled or has room for an entry: no call on it is undefined.\<close>

definition l1_safe :: "l1_cache \<Rightarrow> bool" where
  "l1_safe c \<longleftrightarrow> l1_inv c \<and> (l1_enabled c \<longrightarrow> 0 < l1_max_size c)"

lemma l1_safe_getL1: "l1_safe c \<Longrightarrow> \<exists>r c'. getL1 q c = Some (r, c') \<and> l1_safe c'"
  using getL1_refines[of c q] getL1_disabled[of c q]
  by (cases "l1_enabled c") (auto simp: l1_safe_def)

lemma l1_safe_putL1: "l1_safe c \<Longrightarrow> \<exists>c'. putL1 q r c = Some c' \<and> l1_safe c'"
  using putL1_refines[of c q r] putL1_disabled[of c q r]
  by (cases "l1_enabled c") (auto simp: l1_safe_def word_gt_0 unat_gt_0)

text \<open>Lookups and the number of entries.\<close>

definition l1_lookup :: "l1_cache \<Rightarrow> string \<rightharpoonup> string" where
  "l1_lookup c = map_of (l1_abs c)"

lemma l1_size_abs:
  assumes "l1_inv c"
  shows "l1_size c = length (l1_abs c)"
proof -
  have "fst ` set (l1_map c) = fst ` set (l1_abs c)"
  proof (intro set_eqI)
    fix k
    have "k \<in> fst ` set (l1_map c) \<longleftrightarrow> map_of (l1_map c) k \<noteq> None"
      by (simp add: map_of_eq_None_iff)
    also have "\<dots> \<longleftrightarrow> map_of (l1_abs c) k \<noteq> None"
      by (simp add: l1_abs_None_iff[OF assms])
    finally show "k \<in> fst ` set (l1_map c) \<longleftrightarrow> k \<in> fst ` set (l1_abs c)"
      by (simp add: map_of_eq_None_iff)
  qed
  then have "set (map fst (l1_map c)) = set (map fst (l1_abs c))" by (simp del: fst_l1_abs)
  then have "length (map fst (l1_map c)) = length (map fst (l1_abs c))"
    using l1_invD(3)[OF assms] l1_distinct_abs[OF assms] by (metis distinct_card)
  then show ?thesis by (simp add: l1_size_def)
qed

subsection \<open>The L1 cache is an LRU store\<close>

text \<open>The states in which the cache is in use: enabled, with room for an entry.\<close>

definition l1_active :: "l1_cache \<Rightarrow> bool" where
  "l1_active c \<longleftrightarrow> l1_inv c \<and> l1_enabled c \<and> 0 < l1_max_size c"

lemma l1_activeD:
  "l1_active c \<Longrightarrow> l1_inv c" "l1_active c \<Longrightarrow> l1_enabled c"
  "l1_active c \<Longrightarrow> 0 < unat (l1_max_size c)"
  by (auto simp: l1_active_def unat_gt_0 word_gt_0)

interpretation l1: lru_store getL1 putL1 l1_abs l1_active "\<lambda>c. unat (l1_max_size c)"
proof unfold_locales
  fix c k
  assume act: "l1_active c"
  from getL1_refines[OF l1_activeD(1,2)[OF act], of k] act
  show "\<exists>s'. getL1 k c = Some (fst (lru_get k (l1_abs c)), s') \<and>
      l1_abs s' = snd (lru_get k (l1_abs c)) \<and> l1_active s' \<and> unat (l1_max_size s') = unat (l1_max_size c)"
    by (auto simp: l1_active_def)
next
  fix c k v
  assume act: "l1_active c"
  from putL1_refines[OF l1_activeD[OF act], of k v] act
  show "\<exists>s'. putL1 k v c = Some s' \<and> l1_abs s' = lru_put (unat (l1_max_size c)) k v (l1_abs c) \<and>
      l1_active s' \<and> unat (l1_max_size s') = unat (l1_max_size c)"
    by (auto simp: l1_active_def)
qed (auto simp: l1_activeD l1_distinct_abs simp del: fst_l1_abs)

lemma l1_active_init: "l1_active l1_init"
  by (simp add: l1_active_def l1_inv_init) (simp add: l1_init_def)

subsection \<open>Critical sections of any number of threads\<close>

text \<open>Every critical section on \<^verbatim>\<open>l1_mutex_\<close> that writes, as one step. A thread may run its
  section long after it read \<^verbatim>\<open>l1_enabled_\<close> or after its first lookup, so the steps have
  no guard: this is every interleaving the locks allow.\<close>

inductive l1_step :: "l1_cache \<Rightarrow> l1_cache \<Rightarrow> bool" where
  touch: "getL1_touch q c = Some (r, c') \<Longrightarrow> l1_step c c'"
| insert: "putL1_locked q r c = Some c' \<Longrightarrow> l1_step c c'"
| resize: "l1_step c (setL1MaxSize m c)"
| enable: "l1_step c (setL1Enabled b c)"
| clear: "l1_step c (clear_l1 c)"

interpretation l1_sections: invariant "\<lambda>c. c = l1_init" l1_step l1_inv
proof unfold_locales
  fix c d
  assume "l1_inv c" and "l1_step c d"
  from this(2,1) show "l1_inv d"
    by (induction rule: l1_step.induct) (auto intro: inv_intros)
qed (simp add: l1_inv_init)

subsection \<open>Properties\<close>

text \<open>Property C9: in every state the critical sections of \<^verbatim>\<open>getL1\<close>, \<^verbatim>\<open>putL1\<close>, \<^verbatim>\<open>setL1MaxSize\<close>,
  \<^verbatim>\<open>setL1Enabled\<close> and \<^verbatim>\<open>clear\<close> can reach in any interleaving, \<^verbatim>\<open>l1_map_\<close> and \<^verbatim>\<open>l1_list_\<close>
  index each other: keys and nodes are distinct, an iterator stored under a key points
  to a live node with that key, and \<^verbatim>\<open>l1_map_.size()\<close> is the number of nodes.\<close>

theorem l1_index_consistent:
  assumes "reachable (\<lambda>c. c = l1_init) l1_step c"
  shows "l1_inv c \<and> l1_size c = length (l1_list c) \<and>
    (\<forall>k i. (k, i) \<in> set (l1_map c) \<longrightarrow> (\<exists>n. map_of (l1_list c) i = Some n \<and> node_key n = k))"
proof -
  from l1_sections.reachable_inv[OF assms] have inv: "l1_inv c" .
  have "\<exists>n. map_of (l1_list c) i = Some n \<and> node_key n = k" if "(k, i) \<in> set (l1_map c)" for k i
    using that l1_node_exists[OF inv] l1_invD(3)[OF inv] by (metis map_of_SomeI)
  with inv l1_size_abs[OF inv] show ?thesis by simp
qed

theorem l1_index_consistent_witness:
  "\<exists>c. reachable (\<lambda>c. c = l1_init) l1_step c \<and> l1_size c = 1 \<and> length (l1_list c) = 1"
proof -
  let ?c = "push_node ''k'' ''v'' l1_init"
  have "l1_step l1_init ?c"
    by (rule l1_step.insert[of "''k''" "''v''"]) (simp add: putL1_locked_def l1_init_def)
  then have r: "reachable (\<lambda>c. c = l1_init) l1_step ?c"
    by (rule reachable_step[OF reachable_start, rotated]) simp
  then have "l1_size ?c = 1" using l1_index_consistent[OF r] by (simp add: push_node_def l1_init_def)
  with r show ?thesis using l1_index_consistent[OF r] by auto
qed



text \<open>Property C13: a hit is the value stored last: whatever was done before, a value
  \<^verbatim>\<open>getL1\<close> returns is the one of the last \<^verbatim>\<open>putL1\<close> under that key.\<close>

theorem l1_hit_is_last_put:
  assumes "l1_active c" and "l1_list c = []" and "cache_run getL1 putL1 ops c = Some c'"
    and "getL1 k c' = Some (Some v, c'')"
  shows "last_put k ops None = Some v"
  using l1.coherence[OF assms(1,3,4)] assms(2) by (simp add: l1_abs_def)

theorem l1_hit_is_last_put_witness:
  "last_put ''a'' [Put ''a'' ''1'', Put ''a'' ''2''] None = Some ''2''"
proof -
  obtain c' c'' where "cache_run getL1 putL1 [Put ''a'' ''1'', Put ''a'' ''2''] l1_init = Some c'"
    and "getL1 ''a'' c' = Some (Some ''2'', c'')"
    by (simp add: l1_init_def l1_op_defs)
  then show ?thesis
    using l1_hit_is_last_put[OF l1_active_init] by (simp add: l1_init_def)
qed

text \<open>Property C12: the LRU guarantee. After \<^verbatim>\<open>putL1(k, v)\<close>, while fewer than \<^verbatim>\<open>l1_max_size_\<close>
  other keys are looked up or stored, the entry is not evicted.\<close>

theorem l1_retention:
  assumes "l1_active c" and "card (op_key ` set ops - {k}) < unat (l1_max_size c)"
  shows "\<exists>c' c''. cache_run getL1 putL1 (Put k v # ops) c = Some c' \<and>
    getL1 k c' = Some (last_put k ops (Some v), c'')"
  by (rule l1.retention[OF assms])

theorem l1_retention_witness:
  "\<exists>c' c''. cache_run getL1 putL1 [Put ''a'' ''1'', Put ''b'' ''2'']
      (setL1MaxSize 2 l1_init) = Some c' \<and>
    getL1 ''a'' c' = Some (Some ''1'', c'')"
proof -
  have "l1_active (setL1MaxSize 2 l1_init)"
    using l1_active_init by (simp add: l1_active_def l1_inv_setL1MaxSize) (simp add: setL1MaxSize_def)
  from l1_retention[OF this, of "[Put ''b'' ''2'']" "''a''" "''1''"] show ?thesis
    by (simp add: setL1MaxSize_def)
qed



text \<open>Property C32: \<^verbatim>\<open>putL1\<close> dereferences the front of an empty list exactly when the cache
  is enabled, empty and configured with \<^verbatim>\<open>max_size: 0\<close>; otherwise it is defined.\<close>

theorem putL1_undefined:
  assumes "l1_inv c"
  shows "putL1 q r c = None \<longleftrightarrow> l1_enabled c \<and> l1_list c = [] \<and> l1_max_size c = 0"
  by (rule putL1_undefined_iff[OF assms])

theorem putL1_undefined_witness:
  "putL1 ''q'' ''r'' (setL1MaxSize 0 l1_init) = None"
  using putL1_undefined[OF l1_inv_setL1MaxSize[OF l1_inv_init], of "''q''" "''r''" 0]
  by (simp add: setL1MaxSize_def l1_init_def)

text \<open>Property C40: \<^verbatim>\<open>setL1MaxSize\<close> below the number of entries takes no entry out, and no sequence
  of lookups and insertions does it later: every insertion evicts at most one entry for the one it
  adds, so the cache keeps its old size, above the new maximum.\<close>

theorem l1_shrink_is_not_enforced:
  assumes "l1_active c" and "0 < m" and "unat m \<le> l1_size c"
  shows "\<exists>c'. cache_run getL1 putL1 ops (setL1MaxSize m c) = Some c' \<and> l1_size c' = l1_size c"
proof -
  let ?c = "setL1MaxSize m c"
  have act: "l1_active ?c"
    using assms(1,2) by (simp add: l1_active_def l1_inv_setL1MaxSize) (simp add: setL1MaxSize_def)
  have size: "length (l1_abs ?c) = l1_size c" "unat (l1_max_size ?c) = unat m"
    using l1_size_abs[OF l1_activeD(1)[OF assms(1)]] by (simp_all add: setL1MaxSize_def)
  with l1.overfull[OF act, of ops] assms(3) obtain c'
    where "cache_run getL1 putL1 ops ?c = Some c'" "l1_active c'" "length (l1_abs c') = l1_size c" by auto
  then show ?thesis using l1_size_abs[OF l1_activeD(1)] by metis
qed

theorem l1_shrink_is_not_enforced_witness:
  "\<exists>c c'. cache_run getL1 putL1 [Put ''a'' ''1'', Put ''b'' ''2'', Put ''c'' ''3''] l1_init = Some c \<and>
     cache_run getL1 putL1 [Put ''d'' ''4'', Get ''d'', Put ''e'' ''5''] (setL1MaxSize 1 c) = Some c' \<and>
     l1_max_size c' = 1 \<and> l1_size c' = 3"
proof -
  let ?ops = "[Put ''a'' ''1'', Put ''b'' ''2'', Put ''c'' ''3'']" and ?ops' = "[Put ''d'' ''4'', Get ''d'', Put ''e'' ''5'']"
  obtain c where c: "cache_run getL1 putL1 ?ops l1_init = Some c" "l1_active c"
    and abs: "l1_abs c = lru_run (unat (l1_max_size l1_init)) ?ops (l1_abs l1_init)"
    using l1.run_refines[OF l1_active_init, of ?ops] by blast
  have size: "l1_size c = 3"
    by (simp add: l1_size_abs[OF l1_activeD(1)[OF c(2)]] abs del: length_l1_abs) (simp add: l1_init_def l1_abs_def lru_put_def)
  have act: "l1_active (setL1MaxSize 1 c)"
    using c(2) by (simp add: l1_active_def l1_inv_setL1MaxSize) (simp add: setL1MaxSize_def)
  obtain c' where "cache_run getL1 putL1 ?ops' (setL1MaxSize 1 c) = Some c'" "l1_size c' = 3"
    using l1_shrink_is_not_enforced[OF c(2), of 1 ?ops'] size by auto
  moreover from this l1.run_refines[OF act, of ?ops'] have "unat (l1_max_size c') = unat (1 :: size_t)"
    by (auto simp: setL1MaxSize_def)
  then have "l1_max_size c' = 1" by (simp only: word_unat_eq_iff)
  ultimately show ?thesis using c(1) by blast
qed

end
