(* ===== verification/Redis_L2.thy ===== *)
theory Redis_L2
  imports Prelude "HOL-Library.Signed_Division"
begin

section \<open>The L2 cache: Redis through hiredis\<close>

text \<open>
  The members \<^verbatim>\<open>redis_ctx_\<close>, \<^verbatim>\<open>redis_host_\<close>, \<^verbatim>\<open>redis_port_\<close>, \<^verbatim>\<open>redis_timeout_ms_\<close> and
  \<^verbatim>\<open>redis_enabled_\<close> of \<^verbatim>\<open>QueryCache\<close> and its operations on them. hiredis and the Redis server
  are not part of the repository: they are a record of functions on a world \<open>'r\<close>, an
  argument of every definition that calls them. Whether the build found hiredis
  (\<^verbatim>\<open>HAVE_HIREDIS\<close>) is a field of that record, so both branches of each \<^verbatim>\<open>#ifdef\<close> are here.

  The hiredis branch of \<^verbatim>\<open>getL2\<close> names the key \<^verbatim>\<open>redis_key\<close>, which it does not declare (the local
  variable is \<^verbatim>\<open>key\<close>), so that branch does not compile as it stands; the model reads
  \<^verbatim>\<open>redis_key\<close> as that local variable.
\<close>

subsection \<open>hiredis\<close>

record redisContext =
  ctx_id :: nat
  ctx_err :: bool

datatype redis_command = GET string | SETEX string nat string | FLUSHDB

text \<open>The code looks at the type of a reply only to tell strings from everything else.\<close>

datatype redisReply = REPLY_STRING string | REPLY_OTHER

record 'r hiredis =
  have_hiredis :: bool
  redisConnectWithTimeout :: "string \<Rightarrow> int \<Rightarrow> int \<times> int \<Rightarrow> 'r \<Rightarrow> redisContext option \<times> 'r"
  redisFree :: "redisContext \<Rightarrow> 'r \<Rightarrow> 'r"
  redisCommand :: "redisContext \<Rightarrow> redis_command \<Rightarrow> 'r \<Rightarrow> redisReply option \<times> 'r"

subsection \<open>State and operations\<close>

record 'r l2_cache =
  redis_ctx :: "redisContext option"
  redis_host :: string
  redis_port :: int
  redis_timeout_ms :: int
  redis_enabled :: bool
  redis_world :: 'r

text \<open>\<^verbatim>\<open>struct timeval timeout = {ms / 1000, (ms % 1000) * 1000}\<close>, with C's division.\<close>

definition redis_timeval :: "int \<Rightarrow> int \<times> int" where
  "redis_timeval ms = (ms sdiv 1000, (ms smod 1000) * 1000)"

definition connectRedis :: "'r hiredis \<Rightarrow> 'r l2_cache \<Rightarrow> bool \<times> 'r l2_cache" where
  "connectRedis h c =
     (if \<not> have_hiredis h then (False, c\<lparr>redis_enabled := False\<rparr>)
      else if redis_host c = [] then (False, c\<lparr>redis_enabled := False\<rparr>)
      else case redisConnectWithTimeout h (redis_host c) (redis_port c)
                  (redis_timeval (redis_timeout_ms c)) (redis_world c) of
        (None, w) \<Rightarrow> (False, c\<lparr>redis_ctx := None, redis_enabled := False, redis_world := w\<rparr>)
      | (Some ctx, w) \<Rightarrow>
          if ctx_err ctx
          then (False, c\<lparr>redis_ctx := None, redis_enabled := False, redis_world := redisFree h ctx w\<rparr>)
          else (True, c\<lparr>redis_ctx := Some ctx, redis_enabled := True, redis_world := w\<rparr>))"

definition disconnectRedis :: "'r hiredis \<Rightarrow> 'r l2_cache \<Rightarrow> 'r l2_cache" where
  "disconnectRedis h c =
     (let c' = (if \<not> have_hiredis h then c
                else case redis_ctx c of
                  None \<Rightarrow> c
                | Some ctx \<Rightarrow> c\<lparr>redis_ctx := None, redis_world := redisFree h ctx (redis_world c)\<rparr>)
      in c'\<lparr>redis_enabled := False\<rparr>)"

definition setRedisConfig :: "'r hiredis \<Rightarrow> string \<Rightarrow> int \<Rightarrow> int \<Rightarrow> 'r l2_cache \<Rightarrow> 'r l2_cache" where
  "setRedisConfig h host port timeout_ms c =
     (let c1 = c\<lparr>redis_host := host, redis_port := port, redis_timeout_ms := timeout_ms\<rparr>;
          c2 = (if have_hiredis h \<and> redis_ctx c1 \<noteq> None then disconnectRedis h c1 else c1)
      in snd (connectRedis h c2))"

text \<open>A command on the connection, and a second try over a new one if there is no reply.\<close>

definition redis_command :: "'r hiredis \<Rightarrow> redis_command \<Rightarrow> 'r l2_cache \<Rightarrow> redisReply option \<times> 'r l2_cache" where
  "redis_command h cmd c =
     (case redis_ctx c of
        None \<Rightarrow> (None, c)
      | Some ctx \<Rightarrow>
          (case redisCommand h ctx cmd (redis_world c) of (reply, w) \<Rightarrow> (reply, c\<lparr>redis_world := w\<rparr>)))"

definition redis_command_retry ::
    "'r hiredis \<Rightarrow> redis_command \<Rightarrow> 'r l2_cache \<Rightarrow> redisReply option \<times> 'r l2_cache" where
  "redis_command_retry h cmd c =
     (case redis_command h cmd c of
        (Some reply, c1) \<Rightarrow> (Some reply, c1)
      | (None, c1) \<Rightarrow>
          (case connectRedis h (disconnectRedis h c1) of (connected, c2) \<Rightarrow>
             if connected \<and> redis_ctx c2 \<noteq> None then redis_command h cmd c2 else (None, c2)))"

definition getL2 :: "'r hiredis \<Rightarrow> string \<Rightarrow> 'r l2_cache \<Rightarrow> string option \<times> 'r l2_cache" where
  "getL2 h query c =
     (if \<not> have_hiredis h then (None, c)
      else if redis_ctx c = None \<or> \<not> redis_enabled c then (None, c)
      else let redis_key = ''query:'' @ query in
        (case redis_command_retry h (GET redis_key) c of
           (Some (REPLY_STRING s), c') \<Rightarrow> (Some s, c')
         | (_, c') \<Rightarrow> (None, c')))"

definition putL2 :: "'r hiredis \<Rightarrow> string \<Rightarrow> string \<Rightarrow> 'r l2_cache \<Rightarrow> 'r l2_cache" where
  "putL2 h key result c =
     (if \<not> have_hiredis h then c
      else if redis_ctx c = None \<or> \<not> redis_enabled c then c
      else let redis_key = ''query:'' @ key in
        snd (redis_command_retry h (SETEX redis_key 3600 result) c))"

text \<open>The L2 part of \<^verbatim>\<open>clear\<close>.\<close>

definition flush_l2 :: "'r hiredis \<Rightarrow> 'r l2_cache \<Rightarrow> 'r l2_cache" where
  "flush_l2 h c =
     (if have_hiredis h \<and> redis_enabled c \<and> redis_ctx c \<noteq> None
      then snd (redis_command h FLUSHDB c) else c)"

definition l2_init :: "'r hiredis \<Rightarrow> 'r \<Rightarrow> 'r l2_cache" where
  "l2_init h w = snd (connectRedis h \<lparr>redis_ctx = None, redis_host = [], redis_port = 6379,
     redis_timeout_ms = 1000, redis_enabled = False, redis_world = w\<rparr>)"

lemmas l2_op_defs [op_defs] = connectRedis_def disconnectRedis_def setRedisConfig_def
  redis_command_def redis_command_retry_def getL2_def putL2_def flush_l2_def l2_init_def

subsection \<open>Invariant\<close>

text \<open>L2 is enabled exactly while there is a connection; a connection has no error, needs hiredis and
  a host.\<close>

definition l2_inv :: "'r hiredis \<Rightarrow> 'r l2_cache \<Rightarrow> bool" where
  "l2_inv h c \<longleftrightarrow>
     (redis_enabled c \<longleftrightarrow> redis_ctx c \<noteq> None) \<and>
     (\<forall>ctx. redis_ctx c = Some ctx \<longrightarrow> \<not> ctx_err ctx \<and> have_hiredis h \<and> redis_host c \<noteq> [])"

lemma l2_inv_disconnect [inv_intros]: "l2_inv h c \<Longrightarrow> l2_inv h (disconnectRedis h c)"
  by (auto simp: l2_inv_def disconnectRedis_def Let_def split: option.splits)

lemma disconnect_None: "l2_inv h c \<Longrightarrow> redis_ctx (disconnectRedis h c) = None"
  by (auto simp: l2_inv_def disconnectRedis_def Let_def split: option.splits)

lemma connect_inv:
  assumes "redis_ctx c = None"
  shows "l2_inv h (snd (connectRedis h c)) \<and>
    (fst (connectRedis h c) \<longleftrightarrow> redis_enabled (snd (connectRedis h c)))"
  using assms by (auto simp: l2_inv_def connectRedis_def split: prod.splits option.splits)

lemma l2_inv_command:
  "l2_inv h c \<Longrightarrow> l2_inv h (snd (redis_command h cmd c)) \<and>
     redis_enabled (snd (redis_command h cmd c)) = redis_enabled c"
  by (auto simp: l2_inv_def redis_command_def split: prod.splits option.splits)

lemma l2_inv_retry [inv_intros]:
  assumes "l2_inv h c"
  shows "l2_inv h (snd (redis_command_retry h cmd c))"
proof -
  obtain r c1 where c1: "redis_command h cmd c = (r, c1)" "l2_inv h c1"
    using l2_inv_command[OF assms, of cmd] by (cases "redis_command h cmd c") auto
  obtain b c2 where c2: "connectRedis h (disconnectRedis h c1) = (b, c2)"
    by (cases "connectRedis h (disconnectRedis h c1)")
  with connect_inv[OF disconnect_None[OF c1(2)], of h] have "l2_inv h c2" by simp
  with c1 c2 l2_inv_command[of h c2 cmd] show ?thesis
    by (simp add: redis_command_retry_def split: option.splits)
qed

lemma l2_inv_init [inv_intros]: "l2_inv h (l2_init h w)"
  by (simp add: l2_init_def connectRedis_def l2_inv_def)

lemma l2_init_disabled: "\<not> redis_enabled (l2_init h w)"
  by (simp add: l2_init_def connectRedis_def)

lemma l2_inv_setRedisConfig [inv_intros]:
  assumes "l2_inv h c"
  shows "l2_inv h (setRedisConfig h host port ms c)"
proof -
  let ?c1 = "c\<lparr>redis_host := host, redis_port := port, redis_timeout_ms := ms\<rparr>"
  let ?c2 = "if have_hiredis h \<and> redis_ctx ?c1 \<noteq> None then disconnectRedis h ?c1 else ?c1"
  have "redis_ctx ?c2 = None"
    using assms by (auto simp: l2_inv_def disconnectRedis_def Let_def split: option.splits)
  from connect_inv[OF this, of h] show ?thesis
    by (simp add: setRedisConfig_def Let_def)
qed

lemma l2_inv_getL2 [inv_intros]: "l2_inv h c \<Longrightarrow> l2_inv h (snd (getL2 h q c))"
  using l2_inv_retry[of h c "GET (''query:'' @ q)"]
  by (auto simp: getL2_def Let_def split: prod.splits option.splits redisReply.splits)

lemma l2_inv_putL2 [inv_intros]: "l2_inv h c \<Longrightarrow> l2_inv h (putL2 h k v c)"
  using l2_inv_retry by (auto simp: putL2_def Let_def)

lemma l2_inv_flush [inv_intros]: "l2_inv h c \<Longrightarrow> l2_inv h (flush_l2 h c)"
  using l2_inv_command by (auto simp: flush_l2_def)

text \<open>Without hiredis L2 is off.\<close>

lemma l2_off: "l2_inv h c \<Longrightarrow> \<not> have_hiredis h \<Longrightarrow> \<not> redis_enabled c"
  by (auto simp: l2_inv_def)

lemma getL2_off: "\<not> redis_enabled c \<Longrightarrow> getL2 h q c = (None, c)"
  by (simp add: getL2_def)

lemma putL2_off: "\<not> redis_enabled c \<Longrightarrow> putL2 h k v c = c"
  by (simp add: putL2_def)

text \<open>If the reconnect fails, L2 is off afterwards.\<close>

lemma retry_failed:
  assumes inv: "l2_inv h c" and no: "fst (redis_command h cmd c) = None"
    and down: "\<not> fst (connectRedis h (disconnectRedis h (snd (redis_command h cmd c))))"
  shows "fst (redis_command_retry h cmd c) = None \<and> \<not> redis_enabled (snd (redis_command_retry h cmd c))"
proof -
  have "redis_ctx (disconnectRedis h (snd (redis_command h cmd c))) = None"
    using disconnect_None l2_inv_command[OF inv] by blast
  with connect_inv[OF this, of h] no down show ?thesis
    by (auto simp: redis_command_retry_def split: prod.splits option.splits)
qed

end
