(* ===== verification/Query_Hash.thy ===== *)
theory Query_Hash
  imports Prelude
begin

section \<open>Cache keys\<close>

text \<open>
  \<^verbatim>\<open>QueryCache::hash_query\<close>: the key of a query is its MD5 digest as 32 lower-case hexadecimal
  digits. MD5 is OpenSSL's and a parameter of the model; what the code relies on is that
  a digest has \<^verbatim>\<open>MD5_DIGEST_LENGTH\<close> = 16 bytes. The rendering through the string stream
  (\<^verbatim>\<open>std::hex << std::setw(2) << std::setfill('0') << (int)digest[i]\<close>) is modelled.
\<close>

subsection \<open>Rendering\<close>

definition hex_digit :: "nat \<Rightarrow> char" where
  "hex_digit n = ''0123456789abcdef'' ! n"

fun to_hex :: "nat \<Rightarrow> string" where
  "to_hex n = (if n < 16 then [hex_digit n] else to_hex (n div 16) @ [hex_digit (n mod 16)])"

declare to_hex.simps [simp del]

text \<open>A field narrower than the width is filled on the left.\<close>

definition setw_fill :: "nat \<Rightarrow> char \<Rightarrow> string \<Rightarrow> string" where
  "setw_fill w c s = replicate (w - length s) c @ s"

abbreviation (input) MD5_DIGEST_LENGTH :: nat where
  "MD5_DIGEST_LENGTH \<equiv> 16"

definition hash_query :: "(string \<Rightarrow> byte list) \<Rightarrow> string \<Rightarrow> string" where
  "hash_query md5 query =
     (let digest = md5 query in
      concat (map (\<lambda>i. setw_fill 2 (CHR ''0'') (to_hex (unat (digest ! i)))) [0..<MD5_DIGEST_LENGTH]))"

definition md5_ok :: "(string \<Rightarrow> byte list) \<Rightarrow> bool" where
  "md5_ok md5 \<longleftrightarrow> (\<forall>q. length (md5 q) = MD5_DIGEST_LENGTH)"

subsection \<open>Facts\<close>

abbreviation hex_chars :: "char set" where
  "hex_chars \<equiv> set ''0123456789abcdef''"

lemma hex_digit_in: "n < 16 \<Longrightarrow> hex_digit n \<in> hex_chars"
  unfolding hex_digit_def by (rule nth_mem) simp

lemma hex_digit_inj: "m < 16 \<Longrightarrow> n < 16 \<Longrightarrow> hex_digit m = hex_digit n \<Longrightarrow> m = n"
  unfolding hex_digit_def by (subst (asm) nth_eq_iff_index_eq) auto

lemma hex_byte:
  assumes "n < 256"
  shows "setw_fill 2 (CHR ''0'') (to_hex n) = [hex_digit (n div 16), hex_digit (n mod 16)]"
proof (cases "n < 16")
  case True
  then show ?thesis by (simp add: to_hex.simps[of n] setw_fill_def hex_digit_def)
next
  case False
  with assms have "n div 16 < 16" by simp
  with False show ?thesis
    by (simp add: to_hex.simps[of n] to_hex.simps[of "n div 16"] setw_fill_def)
qed

lemma unat_byte: "unat (b :: byte) < 256"
proof -
  have "unat b < 2 ^ LENGTH(8)" by (rule unsigned_less)
  then show ?thesis by simp
qed

lemma hash_query_digits:
  assumes "length (md5 q) = MD5_DIGEST_LENGTH"
  shows "hash_query md5 q =
    concat (map (\<lambda>b. [hex_digit (unat b div 16), hex_digit (unat b mod 16)]) (md5 q))"
proof -
  have "map (\<lambda>i. setw_fill 2 (CHR ''0'') (to_hex (unat (md5 q ! i)))) [0..<16] =
      map (\<lambda>b. setw_fill 2 (CHR ''0'') (to_hex (unat b))) (md5 q)"
    using assms by (metis (no_types, lifting) map_map map_nth map_eq_conv comp_apply)
  then show ?thesis
    by (simp add: hash_query_def Let_def hex_byte unat_byte)
qed

lemma hex_pairs_inj:
  "length as = length bs \<Longrightarrow>
   concat (map (\<lambda>b :: byte. [hex_digit (unat b div 16), hex_digit (unat b mod 16)]) as) =
   concat (map (\<lambda>b. [hex_digit (unat b div 16), hex_digit (unat b mod 16)]) bs) \<Longrightarrow> as = bs"
proof (induction as bs rule: list_induct2)
  case (Cons a as b bs)
  from Cons.prems have "hex_digit (unat a div 16) = hex_digit (unat b div 16)"
    "hex_digit (unat a mod 16) = hex_digit (unat b mod 16)" by auto
  then have "unat a div 16 = unat b div 16" "unat a mod 16 = unat b mod 16"
    using unat_byte[of a] unat_byte[of b] by (auto intro!: hex_digit_inj)
  then have "unat a = unat b" by (metis div_mult_mod_eq)
  then have "a = b" by (simp add: word_unat_eq_iff)
  with Cons show ?case by simp
qed simp

subsection \<open>Properties\<close>

text \<open>Property C31: a cache key has 32 characters, all of them hexadecimal digits (so the
  \<^verbatim>\<open>%s\<close> of the Redis commands, fed with \<^verbatim>\<open>c_str()\<close>, passes the whole key), and two queries
  have the same key exactly when their MD5 digests agree: the rendering loses nothing.\<close>

theorem hash_query_faithful:
  assumes "md5_ok md5"
  shows "length (hash_query md5 q) = 32 \<and> set (hash_query md5 q) \<subseteq> hex_chars \<and>
    (hash_query md5 q = hash_query md5 q' \<longleftrightarrow> md5 q = md5 q')"
proof -
  have len: "length (md5 q) = 16" for q
    using assms by (simp add: md5_ok_def)
  have "length (hash_query md5 q) = 32"
    using len[of q] by (simp add: hash_query_digits length_concat comp_def sum_list_triv)
  moreover have "unat b div 16 < 16" for b :: byte
    using unat_byte[of b] by simp
  then have "set (hash_query md5 q) \<subseteq> hex_chars"
    using len[of q] hex_digit_in[of "unat _ div 16"] hex_digit_in[of "unat _ mod 16"]
    unfolding hash_query_digits[of md5 q, OF len] by fastforce
  moreover have "hash_query md5 q = hash_query md5 q' \<longleftrightarrow> md5 q = md5 q'"
    using hex_pairs_inj[of "md5 q" "md5 q'"] len by (auto simp: hash_query_digits)
  ultimately show ?thesis by blast
qed

theorem hash_query_faithful_witness:
  "hash_query (\<lambda>q. replicate 15 0 @ [if q = [] then 171 else 10]) [] \<noteq>
   hash_query (\<lambda>q. replicate 15 0 @ [if q = [] then 171 else 10]) ''SELECT 1'' \<and>
   length (hash_query (\<lambda>q. replicate 15 0 @ [if q = [] then 171 else 10]) []) = 32"
proof -
  have "md5_ok (\<lambda>q. replicate 15 0 @ [if q = [] then 171 else 10])" by (simp add: md5_ok_def)
  from hash_query_faithful[OF this, of "[]" "''SELECT 1''"] show ?thesis by simp
qed

end
