(* ===== verification/Flight_Spec.thy ===== *)
theory Flight_Spec
  imports Prelude
begin

section \<open>The contract of request deduplication\<close>

text \<open>
  What a client of \<^verbatim>\<open>SingleFlight\<close> relies on, apart from the implementation: per key
  either no call is in flight, or one is and a list of callbacks waits for it. The locale
  \<open>single_flight\<close> states the laws of joining and notifying; what a burst of
  identical calls gives is proved once there.

  A callback (\<^verbatim>\<open>std::function<void(const std::string&)>\<close>) is a value of a type \<open>'cb\<close>
  and the caller says how it runs: on a world \<open>'w\<close>, and it may throw (\<open>Inl\<close>, with the
  message of the exception).
\<close>

type_synonym ('cb, 'w) invoke = "'cb \<Rightarrow> string \<Rightarrow> 'w \<Rightarrow> (string + unit) \<times> 'w"

datatype flight_role = IS_LEADER | IS_WAITER

text \<open>The notification loop: each callback runs under its own \<^verbatim>\<open>try\<close>, so an exception is
  logged and the loop goes on.\<close>

fun run_callbacks :: "('cb, 'w) invoke \<Rightarrow> 'cb list \<Rightarrow> string \<Rightarrow> 'w \<Rightarrow> 'w" where
  "run_callbacks run [] result w = w"
| "run_callbacks run (cb # cbs) result w =
     (case run cb result w of
        (Inl e, w') \<Rightarrow> run_callbacks run cbs result w'
      | (Inr _, w') \<Rightarrow> run_callbacks run cbs result w')"

lemma run_callbacks_fold:
  "run_callbacks run cbs result w = fold (\<lambda>cb w. snd (run cb result w)) cbs w"
  by (induction cbs arbitrary: w) (auto split: prod.split sum.split)

lemma run_callbacks_append:
  "run_callbacks run (as @ bs) result w = run_callbacks run bs result (run_callbacks run as result w)"
  by (simp add: run_callbacks_fold)

text \<open>Calls of the same key one after the other, with the role each of them gets.\<close>

fun join_all :: "(string \<Rightarrow> 'cb \<Rightarrow> 's \<times> 'w \<Rightarrow> (string + flight_role) \<times> 's \<times> 'w) \<Rightarrow>
    string \<Rightarrow> 'cb list \<Rightarrow> 's \<times> 'w \<Rightarrow> (string + flight_role) list \<times> 's \<times> 'w" where
  "join_all join key [] sw = ([], sw)"
| "join_all join key (cb # cbs) sw =
     (case join key cb sw of (r, sw') \<Rightarrow>
        case join_all join key cbs sw' of (rs, sw'') \<Rightarrow> (r # rs, sw''))"

locale single_flight =
  fixes join :: "('cb, 'w) invoke \<Rightarrow> string \<Rightarrow> 'cb \<Rightarrow> 's \<times> 'w \<Rightarrow> (string + flight_role) \<times> 's \<times> 'w"
    and notify :: "('cb, 'w) invoke \<Rightarrow> string \<Rightarrow> string \<Rightarrow> 's \<times> 'w \<Rightarrow> 's \<times> 'w"
    and waiting :: "'s \<Rightarrow> string \<Rightarrow> 'cb list option"
    and inv :: "'s \<Rightarrow> bool"
  assumes join_leader: "inv s \<Longrightarrow> waiting s k = None \<Longrightarrow>
      \<exists>s'. join run k cb (s, w) = (Inr IS_LEADER, s', w) \<and> inv s' \<and> waiting s' = (waiting s)(k \<mapsto> [])"
    and join_waiter: "inv s \<Longrightarrow> waiting s k = Some cbs \<Longrightarrow>
      \<exists>s'. join run k cb (s, w) = (Inr IS_WAITER, s', w) \<and> inv s' \<and>
           waiting s' = (waiting s)(k \<mapsto> cbs @ [cb])"
    and notify_idle: "inv s \<Longrightarrow> waiting s k = None \<Longrightarrow> notify run k r (s, w) = (s, w)"
    and notify_flight: "inv s \<Longrightarrow> waiting s k = Some cbs \<Longrightarrow>
      \<exists>s'. notify run k r (s, w) = (s', run_callbacks run cbs r w) \<and> inv s' \<and>
           waiting s' = (waiting s)(k := None)"
begin

lemma join_inv:
  assumes "inv s"
  shows "\<exists>role s'. join run k cb (s, w) = (Inr role, s', w) \<and> inv s'"
proof (cases "waiting s k")
  case None
  then show ?thesis using join_leader[OF assms None, of run cb w] by blast
next
  case (Some cbs)
  then show ?thesis using join_waiter[OF assms Some, of run cb w] by blast
qed

lemma notify_inv: "inv s \<Longrightarrow> \<exists>s' w'. notify run k r (s, w) = (s', w') \<and> inv s' \<and> waiting s' k = None"
  using notify_idle[of s k run r w] notify_flight[of s k _ run r w]
  by (cases "waiting s k") auto

lemma join_all_waiters:
  assumes "inv s" and "waiting s k = Some cbs"
  shows "\<exists>s'. join_all (join run) k cs (s, w) = (replicate (length cs) (Inr IS_WAITER), s', w) \<and>
     inv s' \<and> waiting s' = (waiting s)(k \<mapsto> cbs @ cs)"
  using assms
proof (induction cs arbitrary: s cbs)
  case Nil
  then show ?case by (auto simp: fun_upd_idem)
next
  case (Cons c cs)
  from join_waiter[OF Cons.prems, of run c w] obtain s1 where
    s1: "join run k c (s, w) = (Inr IS_WAITER, s1, w)" "inv s1" "waiting s1 = (waiting s)(k \<mapsto> cbs @ [c])"
    by blast
  from Cons.IH[OF s1(2), of "cbs @ [c]"] s1 show ?case by (auto simp: fun_eq_iff)
qed

text \<open>A burst of identical calls on an idle key: the first leads, the others wait, the
  notification runs the waiters' callbacks in order of arrival, and the key is idle again.\<close>

lemma burst:
  assumes "inv s" and "waiting s k = None"
  shows "\<exists>s' s''. join_all (join run) k (cb # cbs) (s, w) =
        (Inr IS_LEADER # replicate (length cbs) (Inr IS_WAITER), s', w) \<and>
     waiting s' k = Some cbs \<and>
     notify run k r (s', w') = (s'', run_callbacks run cbs r w') \<and>
     inv s'' \<and> waiting s'' = waiting s"
proof -
  from join_leader[OF assms, of run cb w] obtain s1 where
    s1: "join run k cb (s, w) = (Inr IS_LEADER, s1, w)" "inv s1" "waiting s1 = (waiting s)(k \<mapsto> [])"
    by blast
  from join_all_waiters[OF s1(2), of k "[]" run cbs w] s1 obtain s2 where
    s2: "join_all (join run) k cbs (s1, w) = (replicate (length cbs) (Inr IS_WAITER), s2, w)"
      "inv s2" "waiting s2 = (waiting s)(k \<mapsto> cbs)" by auto
  from notify_flight[OF s2(2), of k cbs run r w'] s2 obtain s3 where
    "notify run k r (s2, w') = (s3, run_callbacks run cbs r w')" "inv s3"
    "waiting s3 = (waiting s)(k := None)" by auto
  with s1 s2 assms(2) show ?thesis by (auto simp: fun_upd_idem)
qed

end

end
