(* ===== verification/Single_Flight.thy ===== *)
theory Single_Flight
  imports Flight_Spec
begin

section \<open>SingleFlight\<close>

text \<open>
  The class \<^verbatim>\<open>SingleFlight\<close> of \<^verbatim>\<open>src/src/SingleFlight\<close>. A flight lives on the heap and is shared:
  \<^verbatim>\<open>flights_\<close> maps a key to a flight, while a running call keeps its own
  \<^verbatim>\<open>shared_ptr\<close>, so a flight can outlive its entry. A flight is therefore an identifier
  and \<open>heap\<close> holds its fields. Each critical section of the two methods is a definition
  of its own; here they are composed as one thread runs them without interference, and
  the theory \<open>Flight_Threads\<close> interleaves the same sections.
\<close>

subsection \<open>State and operations\<close>

record 'cb Flight =
  flight_result :: string
  ready :: bool
  waiters :: int
  callbacks :: "'cb list"

definition new_Flight :: "'cb Flight" where
  "new_Flight = \<lparr>flight_result = [], ready = False, waiters = 0, callbacks = []\<rparr>"

record 'cb SingleFlight =
  flights :: "string \<rightharpoonup> nat"
  heap :: "nat \<Rightarrow> 'cb Flight"
  next_flight :: nat

definition sf_init :: "'cb SingleFlight" where
  "sf_init = \<lparr>flights = Map.empty, heap = (\<lambda>_. new_Flight), next_flight = 0\<rparr>"

text \<open>\<^verbatim>\<open>flight = std::make_shared<Flight>(); flights_[key] = flight;\<close>\<close>

definition make_flight :: "string \<Rightarrow> 'cb SingleFlight \<Rightarrow> nat \<times> 'cb SingleFlight" where
  "make_flight key sf =
     (let f = next_flight sf in
      (f, sf\<lparr>flights := (flights sf)(key \<mapsto> f), heap := (heap sf)(f := new_Flight),
             next_flight := Suc f\<rparr>))"

text \<open>The section of \<^verbatim>\<open>doSingleFlight\<close> under \<^verbatim>\<open>flights_mutex_\<close>: the flight and \<^verbatim>\<open>is_new_flight\<close>.\<close>

definition doSingleFlight_enter ::
    "string \<Rightarrow> 'cb SingleFlight \<Rightarrow> nat \<times> bool \<times> 'cb SingleFlight" where
  "doSingleFlight_enter key sf =
     (case flights sf key of
        Some f \<Rightarrow>
          if ready (heap sf f)
          then (case make_flight key (sf\<lparr>flights := (flights sf)(key := None)\<rparr>) of
                  (g, sf') \<Rightarrow> (g, True, sf'))
          else (f, False, sf)
      | None \<Rightarrow> (case make_flight key sf of (g, sf') \<Rightarrow> (g, True, sf')))"

text \<open>The section under the flight's own mutex, for a flight that was already there.\<close>

definition doSingleFlight_join :: "('cb, 'w) invoke \<Rightarrow> nat \<Rightarrow> 'cb \<Rightarrow>
    'cb SingleFlight \<times> 'w \<Rightarrow> (string + flight_role) \<times> 'cb SingleFlight \<times> 'w" where
  "doSingleFlight_join run f on_result = (\<lambda>(sf, w).
     let fl = heap sf f in
     if ready fl
     then (case run on_result (flight_result fl) w of
             (Inl e, w') \<Rightarrow> (Inl e, sf, w')
           | (Inr _, w') \<Rightarrow> (Inr IS_WAITER, sf, w'))
     else (Inr IS_WAITER,
           sf\<lparr>heap := (heap sf)(f := fl\<lparr>waiters := waiters fl + 1,
                                        callbacks := callbacks fl @ [on_result]\<rparr>)\<rparr>, w))"

definition doSingleFlight :: "('cb, 'w) invoke \<Rightarrow> string \<Rightarrow> 'cb \<Rightarrow>
    'cb SingleFlight \<times> 'w \<Rightarrow> (string + flight_role) \<times> 'cb SingleFlight \<times> 'w" where
  "doSingleFlight run key on_result = (\<lambda>(sf, w).
     case doSingleFlight_enter key sf of (f, is_new_flight, sf') \<Rightarrow>
       if \<not> is_new_flight then doSingleFlight_join run f on_result (sf', w)
       else (Inr IS_LEADER, sf', w))"

text \<open>The sections of \<^verbatim>\<open>notifyResult\<close>: look the flight up, publish the result under the
  flight's mutex and copy the callbacks, and, after the callbacks ran, erase the key.\<close>

definition notify_publish :: "nat \<Rightarrow> string \<Rightarrow> 'cb SingleFlight \<Rightarrow> 'cb list \<times> 'cb SingleFlight" where
  "notify_publish f result sf =
     (let fl = heap sf f in
      (callbacks fl, sf\<lparr>heap := (heap sf)(f := fl\<lparr>flight_result := result, ready := True\<rparr>)\<rparr>))"

definition notify_erase :: "string \<Rightarrow> 'cb SingleFlight \<Rightarrow> 'cb SingleFlight" where
  "notify_erase key sf = sf\<lparr>flights := (flights sf)(key := None)\<rparr>"

definition notifyResult :: "('cb, 'w) invoke \<Rightarrow> string \<Rightarrow> string \<Rightarrow>
    'cb SingleFlight \<times> 'w \<Rightarrow> 'cb SingleFlight \<times> 'w" where
  "notifyResult run key result = (\<lambda>(sf, w).
     case flights sf key of
       None \<Rightarrow> (sf, w)
     | Some f \<Rightarrow>
         (case notify_publish f result sf of (callbacks_to_notify, sf') \<Rightarrow>
            (notify_erase key sf', run_callbacks run callbacks_to_notify result w)))"

definition sf_clear :: "'cb SingleFlight \<Rightarrow> 'cb SingleFlight" where
  "sf_clear sf = sf\<lparr>flights := Map.empty\<rparr>"

lemmas sf_op_defs [op_defs] = make_flight_def doSingleFlight_enter_def doSingleFlight_join_def
  doSingleFlight_def notify_publish_def notify_erase_def notifyResult_def sf_clear_def

subsection \<open>Invariant without interference\<close>

text \<open>Between calls no flight of the map is ready, distinct keys have distinct flights and
  the counter \<^verbatim>\<open>waiters\<close> is the number of callbacks.\<close>

definition sf_inv :: "'cb SingleFlight \<Rightarrow> bool" where
  "sf_inv sf \<longleftrightarrow>
     (\<forall>k f. flights sf k = Some f \<longrightarrow>
        f < next_flight sf \<and> \<not> ready (heap sf f) \<and>
        waiters (heap sf f) = int (length (callbacks (heap sf f)))) \<and>
     (\<forall>k j f. flights sf k = Some f \<longrightarrow> flights sf j = Some f \<longrightarrow> j = k)"

definition sf_waiting :: "'cb SingleFlight \<Rightarrow> string \<Rightarrow> 'cb list option" where
  "sf_waiting sf k = map_option (\<lambda>f. callbacks (heap sf f)) (flights sf k)"

lemma sf_invD:
  assumes "sf_inv sf" and "flights sf k = Some f"
  shows "f < next_flight sf" "\<not> ready (heap sf f)"
    "waiters (heap sf f) = int (length (callbacks (heap sf f)))"
  using assms by (auto simp: sf_inv_def)

lemma sf_inv_inj:
  "sf_inv sf \<Longrightarrow> flights sf k = Some f \<Longrightarrow> flights sf j = Some f \<Longrightarrow> j = k"
  by (simp add: sf_inv_def)

lemma sf_inv_init [inv_intros]: "sf_inv sf_init"
  by (simp add: sf_inv_def sf_init_def)

lemma sf_waiting_init [simp]: "sf_waiting sf_init = Map.empty"
  by (simp add: sf_waiting_def sf_init_def fun_eq_iff)

lemma sf_inv_clear [inv_intros]: "sf_inv (sf_clear sf)"
  by (simp add: sf_inv_def sf_clear_def)

lemma make_flight_inv:
  assumes inv: "sf_inv sf" and k: "flights sf k = None" and m: "make_flight k sf = (f, sf')"
  shows "sf_inv sf'" and "sf_waiting sf' = (sf_waiting sf)(k \<mapsto> [])"
proof -
  from m have sf': "sf' = sf\<lparr>flights := (flights sf)(k \<mapsto> next_flight sf),
      heap := (heap sf)(next_flight sf := new_Flight), next_flight := Suc (next_flight sf)\<rparr>"
    by (auto simp: make_flight_def Let_def)
  have fresh: "flights sf j \<noteq> Some (next_flight sf)" for j
    using sf_invD(1)[OF inv, of j "next_flight sf"] by auto
  show "sf_inv sf'"
    using fresh sf_invD[OF inv] sf_inv_inj[OF inv] unfolding sf'
    by (auto simp: sf_inv_def new_Flight_def less_SucI)
  show "sf_waiting sf' = (sf_waiting sf)(k \<mapsto> [])"
    using fresh unfolding sf'
    by (auto simp: sf_waiting_def new_Flight_def fun_eq_iff intro!: option.map_cong)
qed

subsection \<open>The class meets the contract\<close>

interpretation sf: single_flight doSingleFlight notifyResult sf_waiting sf_inv
proof unfold_locales
  fix s :: "'a SingleFlight" and k cb and w :: 'b and run :: "('a, 'b) invoke"
  assume inv: "sf_inv s" and idle: "sf_waiting s k = None"
  then have none: "flights s k = None" by (simp add: sf_waiting_def)
  obtain f s' where m: "make_flight k s = (f, s')" by (cases "make_flight k s")
  with none have "doSingleFlight run k cb (s, w) = (Inr IS_LEADER, s', w)"
    by (simp add: doSingleFlight_def doSingleFlight_enter_def)
  with make_flight_inv[OF inv none m]
  show "\<exists>s'. doSingleFlight run k cb (s, w) = (Inr IS_LEADER, s', w) \<and> sf_inv s' \<and>
      sf_waiting s' = (sf_waiting s)(k \<mapsto> [])" by blast
next
  fix s :: "'a SingleFlight" and k cbs cb and w :: 'b and run :: "('a, 'b) invoke"
  assume inv: "sf_inv s" and fl: "sf_waiting s k = Some cbs"
  then obtain f where f: "flights s k = Some f" "callbacks (heap s f) = cbs"
    by (auto simp: sf_waiting_def)
  let ?fl = "(heap s f)\<lparr>waiters := waiters (heap s f) + 1, callbacks := cbs @ [cb]\<rparr>"
  let ?s = "s\<lparr>heap := (heap s)(f := ?fl)\<rparr>"
  have other: "flights s j = Some g \<Longrightarrow> g = f \<longleftrightarrow> j = k" for j g
    using sf_inv_inj[OF inv f(1), of j] f(1) by auto
  have "doSingleFlight run k cb (s, w) = (Inr IS_WAITER, ?s, w)"
    using f sf_invD(2)[OF inv f(1)]
    by (simp add: doSingleFlight_def doSingleFlight_enter_def doSingleFlight_join_def Let_def)
  moreover have "sf_inv ?s"
    using sf_invD[OF inv] sf_inv_inj[OF inv] f by (auto simp: sf_inv_def)
  moreover have "sf_waiting ?s = (sf_waiting s)(k \<mapsto> cbs @ [cb])"
    using f other by (auto simp: sf_waiting_def fun_eq_iff intro!: option.map_cong)
  ultimately show "\<exists>s'. doSingleFlight run k cb (s, w) = (Inr IS_WAITER, s', w) \<and> sf_inv s' \<and>
      sf_waiting s' = (sf_waiting s)(k \<mapsto> cbs @ [cb])" by blast
next
  fix s :: "'a SingleFlight" and k r and w :: 'b and run :: "('a, 'b) invoke"
  assume "sf_waiting s k = None"
  then show "notifyResult run k r (s, w) = (s, w)"
    by (simp add: sf_waiting_def notifyResult_def)
next
  fix s :: "'a SingleFlight" and k cbs r and w :: 'b and run :: "('a, 'b) invoke"
  assume inv: "sf_inv s" and fl: "sf_waiting s k = Some cbs"
  then obtain f where f: "flights s k = Some f" "callbacks (heap s f) = cbs"
    by (auto simp: sf_waiting_def)
  let ?s = "notify_erase k (snd (notify_publish f r s))"
  have other: "flights s j = Some g \<Longrightarrow> j \<noteq> k \<Longrightarrow> g \<noteq> f" for j g
    using sf_inv_inj[OF inv f(1), of j] by auto
  have "notifyResult run k r (s, w) = (?s, run_callbacks run cbs r w)"
    using f by (simp add: notifyResult_def notify_publish_def Let_def)
  moreover have "sf_inv ?s"
    using sf_invD[OF inv] sf_inv_inj[OF inv] other
    by (auto simp: sf_inv_def notify_erase_def notify_publish_def Let_def)
  moreover have "sf_waiting ?s = (sf_waiting s)(k := None)"
    using other by (auto simp: sf_waiting_def notify_erase_def notify_publish_def Let_def
        fun_eq_iff intro!: option.map_cong)
  ultimately show "\<exists>s'. notifyResult run k r (s, w) = (s', run_callbacks run cbs r w) \<and> sf_inv s' \<and>
      sf_waiting s' = (sf_waiting s)(k := None)" by blast
qed

subsection \<open>Properties\<close>

text \<open>Property C6: a burst of identical calls on an idle key has exactly one leader, the first;
  all others are waiters; when the leader notifies, the callback of every waiter runs once,
  in order of arrival, with the leader's result; after that the key is idle again and the
  flights of all other keys are as they were.\<close>

theorem doSingleFlight_burst:
  assumes "sf_inv sf" and "sf_waiting sf key = None"
  shows "\<exists>sf' sf''. join_all (doSingleFlight run) key (cb # cbs) (sf, w) =
        (Inr IS_LEADER # replicate (length cbs) (Inr IS_WAITER), sf', w) \<and>
     notifyResult run key result (sf', w') = (sf'', run_callbacks run cbs result w') \<and>
     sf_inv sf'' \<and> sf_waiting sf'' = sf_waiting sf"
  using sf.burst[OF assms, of run cb cbs w result w'] by blast

theorem doSingleFlight_burst_witness:
  "\<exists>sf' sf''. join_all (doSingleFlight (\<lambda>cb r w. (Inr (), w @ [(cb, r)]))) ''k'' [1, 2, 3 :: nat] (sf_init, []) =
        ([Inr IS_LEADER, Inr IS_WAITER, Inr IS_WAITER], sf', []) \<and>
     notifyResult (\<lambda>cb r w. (Inr (), w @ [(cb, r)])) ''k'' ''rows'' (sf', []) =
        (sf'', [(2, ''rows''), (3, ''rows'')])"
  using doSingleFlight_burst[of "sf_init :: nat SingleFlight" "''k''"
      "\<lambda>cb r w. (Inr (), w @ [(cb, r)])" 1 "[2, 3]" "[]" "''rows''" "[]"]
  by (auto simp: sf_inv_init numeral_2_eq_2)

text \<open>Property C30: an exception in one waiter's callback does not keep the others from being
  notified, and the flight is closed in any case.\<close>

theorem notifyResult_exception_isolated:
  assumes "sf_inv sf" and "sf_waiting sf key = Some cbs"
  shows "\<exists>sf'. notifyResult (\<lambda>cb r log. (if throws cb then Inl (what cb) else Inr (), log @ [(cb, r)]))
        key result (sf, log) = (sf', log @ map (\<lambda>cb. (cb, result)) cbs) \<and>
     sf_inv sf' \<and> sf_waiting sf' = (sf_waiting sf)(key := None)"
proof -
  let ?run = "\<lambda>cb r log. (if throws cb then Inl (what cb) else Inr (), log @ [(cb, r)])"
  have "run_callbacks ?run cbs result log = log @ map (\<lambda>cb. (cb, result)) cbs" for log
    by (induction cbs arbitrary: log) auto
  with sf.notify_flight[OF assms, of ?run result log] show ?thesis by simp
qed

theorem notifyResult_exception_isolated_witness:
  "snd (notifyResult (\<lambda>cb r log. (if cb = (1 :: nat) then Inl ''boom'' else Inr (), log @ [(cb, r)])) ''k'' ''rows''
      (snd (join_all (doSingleFlight (\<lambda>cb r log. (Inr (), log))) ''k'' [0, 1, 2] (sf_init, [])))) =
   [(1, ''rows''), (2, ''rows'')]"
proof -
  let ?run = "\<lambda>cb r log. (Inr (), log) :: (string + unit) \<times> (nat \<times> string) list"
  obtain s1 :: "nat SingleFlight" where s1: "doSingleFlight ?run ''k'' 0 (sf_init, []) = (Inr IS_LEADER, s1, [])"
    "sf_inv s1" "sf_waiting s1 ''k'' = Some []"
    using sf.join_leader[OF sf_inv_init, of "''k''" ?run "0 :: nat" "[]"] by auto
  from sf.join_all_waiters[OF s1(2,3), of ?run "[1, 2]" "[]"] obtain sf where
    s2: "join_all (doSingleFlight ?run) ''k'' [1, 2] (s1, []) = (replicate (length [1, 2 :: nat]) (Inr IS_WAITER), sf, [])"
    and j: "sf_inv sf" "sf_waiting sf ''k'' = Some [1, 2]" by auto
  have "join_all (doSingleFlight ?run) ''k'' [0, 1, 2] (sf_init, []) =
      (Inr IS_LEADER # replicate (length [1, 2 :: nat]) (Inr IS_WAITER), sf, [])"
    by (simp add: s1(1) s2 join_all.simps(2)[of _ _ 0] del: join_all.simps(2) One_nat_def)
  moreover
  obtain sf' where "notifyResult (\<lambda>cb r log. (if cb = 1 then Inl ''boom'' else Inr (), log @ [(cb, r)])) ''k'' ''rows'' (sf, []) =
      (sf', [(1, ''rows''), (2, ''rows'')])"
    using notifyResult_exception_isolated[OF j, of "\<lambda>cb. cb = 1" "\<lambda>_. ''boom''" "''rows''" "[]"] by auto
  ultimately show ?thesis by simp
qed

end
