(* ===== verification/Query_Cache.thy ===== *)
theory Query_Cache
  imports L1_Cache Redis_L2 Query_Hash Single_Flight
begin

section \<open>QueryCache\<close>

text \<open>
  The singleton \<^verbatim>\<open>QueryCache\<close> of \<^verbatim>\<open>src/src/QueryCache\<close>: it composes the L1 cache, the L2 cache, the
  statistics and \<^verbatim>\<open>SingleFlight\<close>. Each method is the composition of its critical sections as one
  thread runs it. MD5 and hiredis are arguments, \<open>run\<close> says how a callback runs on the
  caller's world. \<open>None\<close> is the undefined behaviour of \<^verbatim>\<open>putL1\<close>; an exception of a
  callback leaves \<^verbatim>\<open>doSingleFlight\<close> with the state it reached.
\<close>

subsection \<open>State and operations\<close>

record Stats =
  st_l1_hits :: size_t
  st_l1_misses :: size_t
  st_l2_hits :: size_t
  st_l2_misses :: size_t
  st_l1_size :: size_t

definition zero_Stats :: Stats where
  "zero_Stats = \<lparr>st_l1_hits = 0, st_l1_misses = 0, st_l2_hits = 0, st_l2_misses = 0, st_l1_size = 0\<rparr>"

record ('cb, 'r) QueryCache =
  qc_l1 :: l1_cache
  qc_l2 :: "'r l2_cache"
  qc_stats :: Stats
  qc_flight :: "'cb SingleFlight"

datatype FlightResult = CACHE_HIT | LEADER | WAITER

definition qc_init :: "'r hiredis \<Rightarrow> 'r \<Rightarrow> ('cb, 'r) QueryCache" where
  "qc_init h w = \<lparr>qc_l1 = l1_init, qc_l2 = l2_init h w, qc_stats = zero_Stats, qc_flight = sf_init\<rparr>"

definition updateStats :: "bool \<Rightarrow> bool \<Rightarrow> ('cb, 'r) QueryCache \<Rightarrow> ('cb, 'r) QueryCache" where
  "updateStats l1_hit l2_hit qc =
     (let s = qc_stats qc in
      qc\<lparr>qc_stats :=
        (if l1_hit then s\<lparr>st_l1_hits := st_l1_hits s + 1\<rparr>
         else let s' = s\<lparr>st_l1_misses := st_l1_misses s + 1\<rparr> in
           if l2_hit then s'\<lparr>st_l2_hits := st_l2_hits s' + 1\<rparr>
           else s'\<lparr>st_l2_misses := st_l2_misses s' + 1\<rparr>)\<rparr>)"

definition getStats :: "('cb, 'r) QueryCache \<Rightarrow> Stats" where
  "getStats qc = (qc_stats qc)\<lparr>st_l1_size := of_nat (l1_size (qc_l1 qc))\<rparr>"

definition qc_get :: "(string \<Rightarrow> byte list) \<Rightarrow> 'r hiredis \<Rightarrow> string \<Rightarrow> ('cb, 'r) QueryCache \<Rightarrow>
    (string option \<times> ('cb, 'r) QueryCache) option" where
  "qc_get md5 h query qc =
     (let key = hash_query md5 query in do {
        (l1_result, c1) \<leftarrow> getL1 key (qc_l1 qc);
        let qc = qc\<lparr>qc_l1 := c1\<rparr>;
        case l1_result of
          Some v \<Rightarrow> Some (Some v, updateStats True False qc)
        | None \<Rightarrow>
            (let qc = updateStats False False qc in
             if redis_enabled (qc_l2 qc)
             then (case getL2 h key (qc_l2 qc) of
                (Some v, c2) \<Rightarrow> do {
                  c1' \<leftarrow> putL1 key v (qc_l1 qc);
                  Some (Some v, updateStats False True (qc\<lparr>qc_l2 := c2, qc_l1 := c1'\<rparr>))
                }
              | (None, c2) \<Rightarrow> Some (None, updateStats False False (qc\<lparr>qc_l2 := c2\<rparr>)))
             else Some (None, qc))
      })"

definition qc_put :: "(string \<Rightarrow> byte list) \<Rightarrow> 'r hiredis \<Rightarrow> string \<Rightarrow> string \<Rightarrow>
    ('cb, 'r) QueryCache \<Rightarrow> ('cb, 'r) QueryCache option" where
  "qc_put md5 h query result qc =
     (let key = hash_query md5 query in do {
        c1 \<leftarrow> putL1 key result (qc_l1 qc);
        let qc = qc\<lparr>qc_l1 := c1\<rparr>;
        Some (if redis_enabled (qc_l2 qc) then qc\<lparr>qc_l2 := putL2 h key result (qc_l2 qc)\<rparr> else qc)
      })"

definition qc_doSingleFlight :: "(string \<Rightarrow> byte list) \<Rightarrow> 'r hiredis \<Rightarrow> ('cb, 'w) invoke \<Rightarrow>
    string \<Rightarrow> 'cb \<Rightarrow> ('cb, 'r) QueryCache \<times> 'w \<Rightarrow>
    ((string + FlightResult) \<times> ('cb, 'r) QueryCache \<times> 'w) option" where
  "qc_doSingleFlight md5 h run query on_result = (\<lambda>(qc, w). do {
     (cached, qc) \<leftarrow> qc_get md5 h query qc;
     case cached of
       Some v \<Rightarrow>
         (case run on_result v w of
            (Inl e, w') \<Rightarrow> Some (Inl e, qc, w')
          | (Inr _, w') \<Rightarrow> Some (Inr CACHE_HIT, qc, w'))
     | None \<Rightarrow>
         (case doSingleFlight run (hash_query md5 query) on_result (qc_flight qc, w) of
            (Inl e, sf, w') \<Rightarrow> Some (Inl e, qc\<lparr>qc_flight := sf\<rparr>, w')
          | (Inr IS_LEADER, sf, w') \<Rightarrow> Some (Inr LEADER, qc\<lparr>qc_flight := sf\<rparr>, w')
          | (Inr IS_WAITER, sf, w') \<Rightarrow> Some (Inr WAITER, qc\<lparr>qc_flight := sf\<rparr>, w'))
   })"

definition notifyFlightResult :: "(string \<Rightarrow> byte list) \<Rightarrow> 'r hiredis \<Rightarrow> ('cb, 'w) invoke \<Rightarrow>
    string \<Rightarrow> string \<Rightarrow> ('cb, 'r) QueryCache \<times> 'w \<Rightarrow> (('cb, 'r) QueryCache \<times> 'w) option" where
  "notifyFlightResult md5 h run query result = (\<lambda>(qc, w). do {
     qc \<leftarrow> qc_put md5 h query result qc;
     (case notifyResult run (hash_query md5 query) result (qc_flight qc, w) of
        (sf, w') \<Rightarrow> Some (qc\<lparr>qc_flight := sf\<rparr>, w'))
   })"

definition qc_clear :: "'r hiredis \<Rightarrow> ('cb, 'r) QueryCache \<Rightarrow> ('cb, 'r) QueryCache" where
  "qc_clear h qc =
     qc\<lparr>qc_l1 := clear_l1 (qc_l1 qc), qc_l2 := flush_l2 h (qc_l2 qc), qc_stats := zero_Stats\<rparr>"

definition qc_destroy :: "'r hiredis \<Rightarrow> ('cb, 'r) QueryCache \<Rightarrow> ('cb, 'r) QueryCache" where
  "qc_destroy h qc = qc\<lparr>qc_l2 := disconnectRedis h (qc_l2 qc)\<rparr>"

subsection \<open>Invariant\<close>

definition qc_inv :: "'r hiredis \<Rightarrow> ('cb, 'r) QueryCache \<Rightarrow> bool" where
  "qc_inv h qc \<longleftrightarrow> l1_inv (qc_l1 qc) \<and> l2_inv h (qc_l2 qc) \<and> sf_inv (qc_flight qc)"

lemma qc_inv_init [inv_intros]: "qc_inv h (qc_init h w)"
  by (simp add: qc_inv_def qc_init_def l1_inv_init l2_inv_init sf_inv_init)

lemma updateStats_frame [simp]:
  "qc_l1 (updateStats a b qc) = qc_l1 qc" "qc_l2 (updateStats a b qc) = qc_l2 qc"
  "qc_flight (updateStats a b qc) = qc_flight qc"
  by (simp_all add: updateStats_def Let_def)

lemma qc_get_inv [inv_intros]:
  assumes inv: "qc_inv h qc" and get: "qc_get md5 h q qc = Some (r, qc')"
  shows "qc_inv h qc' \<and> qc_flight qc' = qc_flight qc"
proof -
  let ?k = "hash_query md5 q"
  from get obtain r1 c1 where g1: "getL1 ?k (qc_l1 qc) = Some (r1, c1)"
    by (auto simp: qc_get_def Let_def bind_eq_Some_conv)
  with inv have c1: "l1_inv c1" by (auto simp: qc_inv_def intro: inv_intros)
  show ?thesis
  proof (cases "r1 = None \<and> redis_enabled (qc_l2 qc)")
    case True
    obtain r2 c2 where g2: "getL2 h ?k (qc_l2 qc) = (r2, c2)" by (cases "getL2 h ?k (qc_l2 qc)")
    with inv l2_inv_getL2[of h "qc_l2 qc" ?k] have c2: "l2_inv h c2" by (simp add: qc_inv_def)
    show ?thesis
    proof (cases r2)
      case None
      with True g1 g2 c1 c2 inv get show ?thesis
        by (auto simp: qc_get_def Let_def qc_inv_def)
    next
      case (Some v)
      with True g1 g2 get obtain c1' where "putL1 ?k v c1 = Some c1'"
        and "qc' = updateStats False True ((updateStats False False (qc\<lparr>qc_l1 := c1\<rparr>))\<lparr>qc_l2 := c2, qc_l1 := c1'\<rparr>)"
        by (auto simp: qc_get_def Let_def bind_eq_Some_conv)
      with l1_inv_putL1[OF c1] c2 inv show ?thesis by (auto simp: qc_inv_def)
    qed
  next
    case False
    with g1 c1 inv get show ?thesis
      by (auto simp: qc_get_def Let_def qc_inv_def split: option.splits if_splits)
  qed
qed

lemma qc_put_inv [inv_intros]:
  assumes "qc_inv h qc" and "qc_put md5 h q r qc = Some qc'"
  shows "qc_inv h qc' \<and> qc_flight qc' = qc_flight qc"
  using assms by (auto simp: qc_put_def qc_inv_def Let_def bind_eq_Some_conv intro: inv_intros)

lemma qc_doSingleFlight_inv [inv_intros]:
  assumes inv: "qc_inv h qc" and d: "qc_doSingleFlight md5 h run q cb (qc, w) = Some (r, qc', w')"
  shows "qc_inv h qc'"
proof -
  from d obtain cached qc1 where g: "qc_get md5 h q qc = Some (cached, qc1)"
    by (auto simp: qc_doSingleFlight_def bind_eq_Some_conv)
  with qc_get_inv[OF inv] have qc1: "qc_inv h qc1" by blast
  show ?thesis
  proof (cases cached)
    case None
    from sf.join_inv[of "qc_flight qc1" run "hash_query md5 q" cb w] qc1 obtain role s' where
      "doSingleFlight run (hash_query md5 q) cb (qc_flight qc1, w) = (Inr role, s', w)" "sf_inv s'"
      by (auto simp: qc_inv_def)
    with None g d qc1 show ?thesis
      by (cases role) (auto simp: qc_doSingleFlight_def qc_inv_def)
  next
    case (Some v)
    with g d qc1 show ?thesis
      by (auto simp: qc_doSingleFlight_def split: prod.splits sum.splits)
  qed
qed

lemma notifyFlightResult_inv [inv_intros]:
  assumes inv: "qc_inv h qc" and n: "notifyFlightResult md5 h run q r (qc, w) = Some (qc', w')"
  shows "qc_inv h qc'"
proof -
  from n obtain qc1 where p: "qc_put md5 h q r qc = Some qc1"
    by (auto simp: notifyFlightResult_def bind_eq_Some_conv)
  with qc_put_inv[OF inv] have qc1: "qc_inv h qc1" by blast
  from sf.notify_inv[of "qc_flight qc1" run "hash_query md5 q" r w] qc1 obtain s' v where
    "notifyResult run (hash_query md5 q) r (qc_flight qc1, w) = (s', v)" "sf_inv s'"
    by (auto simp: qc_inv_def)
  with p n qc1 show ?thesis by (auto simp: notifyFlightResult_def qc_inv_def)
qed

lemma qc_clear_inv [inv_intros]: "qc_inv h qc \<Longrightarrow> qc_inv h (qc_clear h qc)"
  by (auto simp: qc_inv_def qc_clear_def intro: inv_intros)

lemma qc_destroy_inv [inv_intros]: "qc_inv h qc \<Longrightarrow> qc_inv h (qc_destroy h qc)"
  by (auto simp: qc_inv_def qc_destroy_def intro: inv_intros)

subsection \<open>Any sequence of method calls\<close>

inductive qc_step :: "(string \<Rightarrow> byte list) \<Rightarrow> 'r hiredis \<Rightarrow> ('cb, 'w) invoke \<Rightarrow>
    ('cb, 'r) QueryCache \<times> 'w \<Rightarrow> ('cb, 'r) QueryCache \<times> 'w \<Rightarrow> bool"
  for md5 h run where
  get: "qc_get md5 h q qc = Some (r, qc') \<Longrightarrow> qc_step md5 h run (qc, w) (qc', w)"
| put: "qc_put md5 h q r qc = Some qc' \<Longrightarrow> qc_step md5 h run (qc, w) (qc', w)"
| join: "qc_doSingleFlight md5 h run q cb (qc, w) = Some (r, qc', w') \<Longrightarrow> qc_step md5 h run (qc, w) (qc', w')"
| notify: "notifyFlightResult md5 h run q r (qc, w) = Some (qc', w') \<Longrightarrow> qc_step md5 h run (qc, w) (qc', w')"
| clear: "qc_step md5 h run (qc, w) (qc_clear h qc, w)"
| redis: "qc_step md5 h run (qc, w) (qc\<lparr>qc_l2 := setRedisConfig h host port ms (qc_l2 qc)\<rparr>, w)"
| max_size: "qc_step md5 h run (qc, w) (qc\<lparr>qc_l1 := setL1MaxSize m (qc_l1 qc)\<rparr>, w)"
| enable: "qc_step md5 h run (qc, w) (qc\<lparr>qc_l1 := setL1Enabled b (qc_l1 qc)\<rparr>, w)"
| world: "qc_step md5 h run (qc, w) (qc, w')"

lemma qc_step_inv:
  assumes "qc_step md5 h run s t"
  shows "qc_inv h (fst s) \<Longrightarrow> qc_inv h (fst t)"
  using assms
proof (induction rule: qc_step.induct)
  case (redis qc w host port ms)
  then show ?case by (simp add: qc_inv_def l2_inv_setRedisConfig)
next
  case (max_size qc w m)
  then show ?case by (simp add: qc_inv_def l1_inv_setL1MaxSize)
next
  case (enable qc w b)
  then show ?case by (simp add: qc_inv_def l1_inv_setL1Enabled)
next
  case (join q cb qc w r qc' w')
  then show ?case using qc_doSingleFlight_inv by fastforce
next
  case (notify q r qc w qc' w')
  then show ?case using notifyFlightResult_inv by fastforce
next
  case (get q qc r qc' w)
  then show ?case using qc_get_inv by fastforce
next
  case (put q r qc qc' w)
  then show ?case using qc_put_inv by fastforce
next
  case (clear qc w)
  then show ?case using qc_clear_inv by fastforce
qed simp

interpretation qc: invariant "\<lambda>s. \<exists>r w. s = (qc_init h r, w)" "qc_step md5 h run" "\<lambda>s. qc_inv h (fst s)"
  for md5 h run
  by unfold_locales (auto simp: qc_inv_init dest: qc_step_inv)

subsection \<open>Lookups, misses and bursts\<close>

text \<open>What L1 answers for a key: nothing while it is disabled.\<close>

definition qc_cached :: "('cb, 'r) QueryCache \<Rightarrow> string \<Rightarrow> string option" where
  "qc_cached qc key = (if l1_enabled (qc_l1 qc) then l1_lookup (qc_l1 qc) key else None)"

lemma qc_cached_frame [simp]:
  "qc_cached (qc\<lparr>qc_flight := s\<rparr>) k = qc_cached qc k"
  "qc_cached (updateStats a b qc) k = qc_cached qc k"
  by (simp_all add: qc_cached_def)

lemma getL1_cached:
  assumes inv: "qc_inv h qc"
  shows "\<exists>c. getL1 key (qc_l1 qc) = Some (qc_cached qc key, c) \<and> l1_inv c \<and>
     l1_enabled c = l1_enabled (qc_l1 qc) \<and> l1_max_size c = l1_max_size (qc_l1 qc) \<and>
     (qc_cached qc key = None \<longrightarrow> c = qc_l1 qc)"
proof (cases "l1_enabled (qc_l1 qc)")
  case True
  from inv have l1: "l1_inv (qc_l1 qc)" by (simp add: qc_inv_def)
  from getL1_refines[OF l1 True, of key] obtain c where c: "getL1 key (qc_l1 qc) = Some (l1_lookup (qc_l1 qc) key, c)"
    "l1_inv c" "l1_enabled c = l1_enabled (qc_l1 qc)" "l1_max_size c = l1_max_size (qc_l1 qc)"
    by (auto simp: lru_get_def l1_lookup_def split: option.splits)
  moreover have "c = qc_l1 qc" if "l1_lookup (qc_l1 qc) key = None"
    using that True c(1) l1_abs_None_iff[OF l1, of key]
    by (simp add: l1_lookup_def getL1_def getL1_probe_def)
  ultimately show ?thesis using True by (auto simp: qc_cached_def)
qed (use inv in \<open>auto simp: getL1_def qc_cached_def qc_inv_def\<close>)

lemma qc_get_hit:
  assumes "qc_inv h qc" and "qc_cached qc (hash_query md5 q) = Some v"
  shows "\<exists>c. qc_get md5 h q qc = Some (Some v, updateStats True False (qc\<lparr>qc_l1 := c\<rparr>)) \<and> l1_inv c"
  using getL1_cached[OF assms(1), of "hash_query md5 q"] assms(2)
  by (auto simp: qc_get_def Let_def)

lemma qc_get_miss:
  assumes "qc_inv h qc" and "qc_cached qc (hash_query md5 q) = None" and "\<not> redis_enabled (qc_l2 qc)"
  shows "qc_get md5 h q qc = Some (None, updateStats False False qc)"
  using getL1_cached[OF assms(1), of "hash_query md5 q"] assms(2,3)
  by (auto simp: qc_get_def Let_def)

fun role_result :: "flight_role \<Rightarrow> FlightResult" where
  "role_result IS_LEADER = LEADER"
| "role_result IS_WAITER = WAITER"

lemma qc_doSingleFlight_miss:
  assumes "qc_inv h qc" and "qc_cached qc (hash_query md5 q) = None" and "\<not> redis_enabled (qc_l2 qc)"
    and "doSingleFlight run (hash_query md5 q) cb (qc_flight qc, w) = (Inr role, sf, w')"
  shows "qc_doSingleFlight md5 h run q cb (qc, w) =
    Some (Inr (role_result role), (updateStats False False qc)\<lparr>qc_flight := sf\<rparr>, w')"
  using assms by (cases role) (simp_all add: qc_doSingleFlight_def qc_get_miss)

text \<open>Identical calls one after the other, as \<^verbatim>\<open>Session\<close> objects make them.\<close>

fun qc_calls :: "(string \<Rightarrow> byte list) \<Rightarrow> 'r hiredis \<Rightarrow> ('cb, 'w) invoke \<Rightarrow> string \<Rightarrow> 'cb list \<Rightarrow>
    ('cb, 'r) QueryCache \<times> 'w \<Rightarrow> ((string + FlightResult) list \<times> ('cb, 'r) QueryCache \<times> 'w) option" where
  "qc_calls md5 h run q [] s = Some ([], s)"
| "qc_calls md5 h run q (cb # cbs) s = do {
     (r, s') \<leftarrow> qc_doSingleFlight md5 h run q cb s;
     (rs, s'') \<leftarrow> qc_calls md5 h run q cbs s';
     Some (r # rs, s'')
   }"

text \<open>On a miss with L2 off, the calls do to the flights what \<^verbatim>\<open>SingleFlight\<close> does, and leave the
  caches alone.\<close>

lemma qc_calls_join_all:
  assumes "qc_inv h qc" and "qc_cached qc (hash_query md5 q) = None" and "\<not> redis_enabled (qc_l2 qc)"
    and "join_all (doSingleFlight run) (hash_query md5 q) cbs (qc_flight qc, w) = (map Inr roles, sf, w')"
  shows "\<exists>qc'. qc_calls md5 h run q cbs (qc, w) = Some (map (Inr \<circ> role_result) roles, qc', w') \<and>
    qc_inv h qc' \<and> qc_l1 qc' = qc_l1 qc \<and> qc_l2 qc' = qc_l2 qc \<and> qc_flight qc' = sf"
  using assms
proof (induction cbs arbitrary: qc w roles)
  case Nil
  then show ?case by simp
next
  case (Cons cb cbs)
  let ?k = "hash_query md5 q"
  from Cons.prems(1) have "sf_inv (qc_flight qc)" by (simp add: qc_inv_def)
  then obtain role s1 where s1: "doSingleFlight run ?k cb (qc_flight qc, w) = (Inr role, s1, w)" "sf_inv s1"
    using sf.join_inv[of "qc_flight qc" run ?k cb w] by blast
  let ?qc = "(updateStats False False qc)\<lparr>qc_flight := s1\<rparr>"
  obtain rs where rs: "join_all (doSingleFlight run) ?k cbs (s1, w) = (map Inr rs, sf, w')"
    "roles = role # rs"
    using Cons.prems(4) s1(1) by (cases roles) (auto split: prod.splits)
  have "qc_inv h ?qc" "qc_cached ?qc ?k = None"
    using Cons.prems(1,2) s1(2) by (auto simp: qc_inv_def qc_cached_def)
  with Cons.IH[of ?qc w rs] rs Cons.prems(3) obtain qc' where
    "qc_calls md5 h run q cbs (?qc, w) = Some (map (Inr \<circ> role_result) rs, qc', w')"
    "qc_inv h qc'" "qc_l1 qc' = qc_l1 qc" "qc_l2 qc' = qc_l2 qc" "qc_flight qc' = sf" by auto
  with qc_doSingleFlight_miss[OF Cons.prems(1-3) s1(1)] rs(2) show ?case by auto
qed

text \<open>Storing a result makes it the cached one.\<close>

lemma qc_put_cached:
  assumes act: "l1_active (qc_l1 qc)"
  shows "\<exists>qc'. qc_put md5 h q r qc = Some qc' \<and> qc_cached qc' (hash_query md5 q) = Some r \<and>
    l1_active (qc_l1 qc') \<and> qc_flight qc' = qc_flight qc"
proof -
  let ?k = "hash_query md5 q"
  obtain c where c: "putL1 ?k r (qc_l1 qc) = Some c" "l1_active c"
    "l1_abs c = lru_put (unat (l1_max_size (qc_l1 qc))) ?k r (l1_abs (qc_l1 qc))"
    using l1.put_spec[OF act, of ?k r] by blast
  have "distinct (map fst (l1_abs c))" using l1.distinct_abs[OF c(2)] .
  moreover have "(?k, r) \<in> set (l1_abs c)" by (simp add: c(3) lru_put_def)
  ultimately have "map_of (l1_abs c) ?k = Some r" by simp
  with c l1_activeD(2)[OF c(2)] show ?thesis
    by (simp add: qc_put_def Let_def qc_cached_def l1_lookup_def)
qed

subsection \<open>What a call does to the flights\<close>

definition qc_safe :: "'r hiredis \<Rightarrow> ('cb, 'r) QueryCache \<Rightarrow> bool" where
  "qc_safe h qc \<longleftrightarrow> qc_inv h qc \<and> l1_safe (qc_l1 qc)"

definition qc_waiting :: "('cb, 'r) QueryCache \<Rightarrow> string \<Rightarrow> 'cb list option" where
  "qc_waiting qc = sf_waiting (qc_flight qc)"

lemma qc_get_safe:
  assumes safe: "qc_safe h qc"
  shows "\<exists>r qc'. qc_get md5 h q qc = Some (r, qc') \<and> qc_safe h qc' \<and> qc_flight qc' = qc_flight qc"
proof -
  let ?k = "hash_query md5 q"
  obtain r1 c1 where g1: "getL1 ?k (qc_l1 qc) = Some (r1, c1)" "l1_safe c1"
    using l1_safe_getL1[of "qc_l1 qc" ?k] safe by (auto simp: qc_safe_def)
  obtain r2 c2 where g2: "getL2 h ?k (qc_l2 qc) = (r2, c2)" by (cases "getL2 h ?k (qc_l2 qc)")
  have "\<exists>r qc'. qc_get md5 h q qc = Some (r, qc') \<and> l1_safe (qc_l1 qc')"
  proof (cases r2)
    case None
    with g1 g2 show ?thesis by (auto simp: qc_get_def Let_def split: option.splits)
  next
    case (Some v)
    obtain c1' where "putL1 ?k v c1 = Some c1'" "l1_safe c1'" using l1_safe_putL1[OF g1(2)] by blast
    with Some g1 g2 show ?thesis by (auto simp: qc_get_def Let_def split: option.splits)
  qed
  with qc_get_inv[of h qc md5 q] safe show ?thesis by (auto simp: qc_safe_def)
qed

lemma qc_put_safe:
  assumes safe: "qc_safe h qc"
  shows "\<exists>qc'. qc_put md5 h q r qc = Some qc' \<and> qc_safe h qc' \<and> qc_flight qc' = qc_flight qc"
proof -
  let ?k = "hash_query md5 q"
  obtain c1 where "putL1 ?k r (qc_l1 qc) = Some c1" "l1_safe c1"
    using l1_safe_putL1[of "qc_l1 qc" ?k r] safe by (auto simp: qc_safe_def)
  then have "\<exists>qc'. qc_put md5 h q r qc = Some qc' \<and> l1_safe (qc_l1 qc')" by (auto simp: qc_put_def Let_def)
  with qc_put_inv[of h qc md5 q r] safe show ?thesis by (auto simp: qc_safe_def)
qed

text \<open>For callbacks that do not throw, a call is a hit, or it leads, or it waits.\<close>

lemma qc_doSingleFlight_cases:
  assumes safe: "qc_safe h qc" and nothrow: "\<And>cb r w. fst (run cb r w) = Inr ()"
  obtains
    (hit) v qc' where "qc_doSingleFlight md5 h run q cb (qc, w) = Some (Inr CACHE_HIT, qc', snd (run cb v w))"
      "qc_safe h qc'" "qc_waiting qc' = qc_waiting qc"
  | (leader) qc' where "qc_doSingleFlight md5 h run q cb (qc, w) = Some (Inr LEADER, qc', w)"
      "qc_safe h qc'" "qc_waiting qc (hash_query md5 q) = None"
      "qc_waiting qc' = (qc_waiting qc)(hash_query md5 q \<mapsto> [])"
  | (waiter) cbs qc' where "qc_doSingleFlight md5 h run q cb (qc, w) = Some (Inr WAITER, qc', w)"
      "qc_safe h qc'" "qc_waiting qc (hash_query md5 q) = Some cbs"
      "qc_waiting qc' = (qc_waiting qc)(hash_query md5 q \<mapsto> cbs @ [cb])"
proof -
  let ?k = "hash_query md5 q"
  obtain r qc1 where g: "qc_get md5 h q qc = Some (r, qc1)" "qc_safe h qc1" "qc_flight qc1 = qc_flight qc"
    using qc_get_safe[OF safe] by blast
  have sfi: "sf_inv (qc_flight qc)" using safe by (simp add: qc_safe_def qc_inv_def)
  have upd: "qc_safe h (qc1\<lparr>qc_flight := s\<rparr>)" if "sf_inv s" for s
    using g(2) that by (simp add: qc_safe_def qc_inv_def)
  show thesis
  proof (cases r)
    case (Some v)
    obtain w' where "run cb v w = (Inr (), w')" using nothrow[of cb v w] by (cases "run cb v w") auto
    with g Some show thesis
      by (intro hit[of qc1 v]) (simp_all add: qc_doSingleFlight_def qc_waiting_def)
  next
    case None
    show thesis
    proof (cases "sf_waiting (qc_flight qc) ?k")
      case None
      from sf.join_leader[OF sfi None, of run cb w] \<open>r = None\<close> g upd show thesis
        by (auto simp: qc_doSingleFlight_def qc_waiting_def None intro: leader)
    next
      case (Some cbs)
      from sf.join_waiter[OF sfi Some, of run cb w] \<open>r = None\<close> g upd show thesis
        by (auto simp: qc_doSingleFlight_def qc_waiting_def Some intro: waiter)
    qed
  qed
qed

lemma notifyFlightResult_flight:
  assumes safe: "qc_safe h qc"
  shows "\<exists>qc'. notifyFlightResult md5 h run q r (qc, w) =
      Some (qc', run_callbacks run (case qc_waiting qc (hash_query md5 q) of None \<Rightarrow> [] | Some cbs \<Rightarrow> cbs) r w) \<and>
    qc_safe h qc' \<and> qc_waiting qc' = (qc_waiting qc)(hash_query md5 q := None)"
proof -
  let ?k = "hash_query md5 q"
  obtain qc1 where p: "qc_put md5 h q r qc = Some qc1" "qc_safe h qc1" "qc_flight qc1 = qc_flight qc"
    using qc_put_safe[OF safe] by blast
  have sfi: "sf_inv (qc_flight qc)" using safe by (simp add: qc_safe_def qc_inv_def)
  have upd: "qc_safe h (qc1\<lparr>qc_flight := s\<rparr>)" if "sf_inv s" for s
    using p(2) that by (simp add: qc_safe_def qc_inv_def)
  show ?thesis
  proof (cases "sf_waiting (qc_flight qc) ?k")
    case None
    from sf.notify_idle[OF sfi None, of run r w] p upd[OF sfi] show ?thesis
      by (auto simp: notifyFlightResult_def qc_waiting_def None fun_upd_idem)
  next
    case (Some cbs)
    from sf.notify_flight[OF sfi Some, of run r w] p upd show ?thesis
      by (auto simp: notifyFlightResult_def qc_waiting_def Some)
  qed
qed

subsection \<open>Properties\<close>

text \<open>Property C10: whatever methods are called in whatever order, with any behaviour of hiredis and
  any callbacks, the state of \<^verbatim>\<open>QueryCache\<close> stays consistent: the L1 index matches the
  list, L2 is enabled exactly while a usable connection exists, and no finished flight is left
  in the map.\<close>

theorem query_cache_invariant:
  assumes "reachable (\<lambda>s. \<exists>r w. s = (qc_init h r, w)) (qc_step md5 h run) (qc, w)"
  shows "l1_inv (qc_l1 qc) \<and> l2_inv h (qc_l2 qc) \<and> sf_inv (qc_flight qc)"
  using qc.reachable_inv[OF assms] by (simp add: qc_inv_def)

abbreviation no_redis :: "unit hiredis" where
  "no_redis \<equiv> \<lparr>have_hiredis = False, redisConnectWithTimeout = (\<lambda>_ _ _ r. (None, r)), redisFree = (\<lambda>_ r. r),
      redisCommand = (\<lambda>_ _ r. (None, r))\<rparr>"

theorem query_cache_invariant_witness:
  "sf_inv (qc_flight (qc_clear no_redis (qc_init no_redis () :: (nat, unit) QueryCache)))"
proof -
  let ?run = "\<lambda>cb r w. (Inr (), w) :: (string + unit) \<times> unit"
  let ?qc = "qc_init no_redis () :: (nat, unit) QueryCache"
  let ?start = "\<lambda>s. \<exists>r w. s = (qc_init no_redis r :: (nat, unit) QueryCache, w :: unit)"
  let ?step = "qc_step (\<lambda>q :: string. replicate 16 0 :: byte list) no_redis ?run"
  have "reachable ?start ?step (?qc, ())" by (rule reachable_start) blast
  then have "reachable ?start ?step (qc_clear no_redis ?qc, ())"
    by (rule reachable_step) (rule qc_step.clear)
  from query_cache_invariant[OF this] show ?thesis by blast
qed



text \<open>Property C35: what one \<^verbatim>\<open>get\<close> adds to the statistics. A miss in L1 counts once against L1 and
  once against L2 even with L2 off; with L2 on it counts twice against L1, and an L2 hit is
  also counted as an L2 miss.\<close>

theorem get_statistics:
  assumes inv: "qc_inv h qc" and get: "qc_get md5 h q qc = Some (r, qc')"
  shows "qc_stats qc' = (let s = qc_stats qc in
     if qc_cached qc (hash_query md5 q) \<noteq> None then s\<lparr>st_l1_hits := st_l1_hits s + 1\<rparr>
     else if \<not> redis_enabled (qc_l2 qc)
       then s\<lparr>st_l1_misses := st_l1_misses s + 1, st_l2_misses := st_l2_misses s + 1\<rparr>
     else if r = None
       then s\<lparr>st_l1_misses := st_l1_misses s + 2, st_l2_misses := st_l2_misses s + 2\<rparr>
     else s\<lparr>st_l1_misses := st_l1_misses s + 2, st_l2_hits := st_l2_hits s + 1,
             st_l2_misses := st_l2_misses s + 1\<rparr>)"
proof (cases "qc_cached qc (hash_query md5 q)")
  case (Some v)
  with qc_get_hit[OF inv Some] get show ?thesis
    by (auto simp: updateStats_def Let_def)
next
  case None
  obtain c where "getL1 (hash_query md5 q) (qc_l1 qc) = Some (None, c)" "c = qc_l1 qc"
    using getL1_cached[OF inv, of "hash_query md5 q"] None by auto
  with get None show ?thesis
    by (auto simp: qc_get_def Let_def updateStats_def bind_eq_Some_conv
        split: if_splits prod.splits option.splits)
qed

theorem get_statistics_witness:
  "st_l1_misses (qc_stats (snd (the (qc_get (\<lambda>q. replicate 16 0) no_redis ''SELECT 1''
     (qc_init no_redis () :: (nat, unit) QueryCache))))) = 1"
proof -
  let ?qc = "qc_init no_redis () :: (nat, unit) QueryCache"
  have inv: "qc_inv no_redis ?qc" by (rule qc_inv_init)
  have miss: "qc_cached ?qc k = None" for k
    by (simp add: qc_init_def qc_cached_def l1_lookup_def l1_init_def l1_abs_def)
  have off: "\<not> redis_enabled (qc_l2 ?qc)" using l2_init_disabled by (simp add: qc_init_def)
  from qc_get_miss[OF inv miss off] obtain qc' where g: "qc_get (\<lambda>q. replicate 16 0) no_redis ''SELECT 1'' ?qc = Some (None, qc')"
    by blast
  from get_statistics[OF inv g] miss off g show ?thesis
    by (simp add: Let_def) (simp add: qc_init_def zero_Stats_def)
qed

text \<open>Redis keeps what it acknowledged: a \<^verbatim>\<open>GET\<close> right after an acknowledged \<^verbatim>\<open>SETEX\<close> on the same
  connection returns the value.\<close>

definition redis_remembers :: "'r hiredis \<Rightarrow> bool" where
  "redis_remembers h \<longleftrightarrow> (\<forall>ctx k v w reply w'.
     redisCommand h ctx (SETEX k 3600 v) w = (Some reply, w') \<longrightarrow>
     (\<exists>w''. redisCommand h ctx (GET k) w' = (Some (REPLY_STRING v), w'')))"


abbreviation map_redis :: "(string \<rightharpoonup> string) hiredis" where
  "map_redis \<equiv> \<lparr>have_hiredis = True,
     redisConnectWithTimeout = (\<lambda>_ _ _ r. (Some \<lparr>ctx_id = 0, ctx_err = False\<rparr>, r)), redisFree = (\<lambda>_ r. r),
     redisCommand = (\<lambda>_ cmd r. case cmd of
        GET k \<Rightarrow> (Some (case r k of None \<Rightarrow> REPLY_OTHER | Some v \<Rightarrow> REPLY_STRING v), r)
      | SETEX k ttl v \<Rightarrow> (Some REPLY_OTHER, r(k \<mapsto> v))
      | FLUSHDB \<Rightarrow> (Some REPLY_OTHER, Map.empty))\<rparr>"


text \<open>Property C34: when Redis does not answer and the reconnect fails, a lookup in L2 is a plain miss
  and L2 is off from then on: later lookups and stores do not contact Redis at all.\<close>

theorem l2_failure_degrades:
  assumes "l2_inv h c" and "fst (redis_command h (GET (''query:'' @ key)) c) = None"
    and "\<not> fst (connectRedis h (disconnectRedis h (snd (redis_command h (GET (''query:'' @ key)) c))))"
    and "getL2 h key c = (r, c')"
  shows "r = None \<and> (redis_enabled c \<longrightarrow> \<not> redis_enabled c') \<and>
    (redis_enabled c \<longrightarrow> getL2 h key' c' = (None, c') \<and> putL2 h key' v c' = c')"
proof -
  have "r = None \<and> (redis_enabled c \<longrightarrow> \<not> redis_enabled c')"
    using retry_failed[OF assms(1-3)] assms(1,4)
    by (cases "redis_enabled c")
      (auto simp: getL2_def Let_def l2_inv_def split: prod.splits option.splits redisReply.splits if_splits)
  then show ?thesis by (auto simp: getL2_off putL2_off)
qed

theorem l2_failure_degrades_witness:
  "fst (getL2 (map_redis\<lparr>redisCommand := \<lambda>_ _ r. (None, r), redisConnectWithTimeout := \<lambda>_ _ _ r. (None, r)\<rparr>) ''k''
     (setRedisConfig map_redis ''localhost'' 6379 1000 (l2_init map_redis Map.empty))) = None"
proof -
  let ?h = "map_redis\<lparr>redisCommand := \<lambda>_ _ r. (None, r), redisConnectWithTimeout := \<lambda>_ _ _ r. (None, r)\<rparr>"
  let ?c = "setRedisConfig map_redis ''localhost'' 6379 1000 (l2_init map_redis Map.empty)"
  have inv: "l2_inv ?h ?c"
    by (simp add: setRedisConfig_def connectRedis_def l2_init_def l2_inv_def)
  obtain r c' where g: "getL2 ?h ''k'' ?c = (r, c')" by (cases "getL2 ?h ''k'' ?c")
  have no: "fst (redis_command ?h (GET (''query:'' @ ''k'')) ?c) = None"
    by (simp add: redis_command_def split: option.splits)
  have down: "\<not> fst (connectRedis ?h d)" for d by (simp add: connectRedis_def)
  from l2_failure_degrades[OF inv no down g] g show ?thesis by simp
qed

end
