(* ===== verification/Proxy_System.thy ===== *)
theory Proxy_System
  imports Session_Chains Query_Cache
begin

section \<open>Sessions sharing the query cache\<close>

text \<open>
  All sessions of the proxy with the operations they have in flight, and the shared \<^verbatim>\<open>QueryCache\<close>. Here
  are the two read handlers of the bridge (\<^verbatim>\<open>bridge_client_to_server\<close>, \<^verbatim>\<open>bridge_server_to_client\<close>), which
  join and notify flights, and the callback a session leaves with a flight. A step is one
  handler run to its end, as one worker thread runs it; the interleavings inside
  \<^verbatim>\<open>SingleFlight\<close> are the subject of \<open>Flight_Threads\<close>.
\<close>

subsection \<open>State\<close>

text \<open>A session is kept alive by the \<^verbatim>\<open>shared_ptr\<close> its handlers and callbacks captured; it is named by a number.\<close>

record io =
  sessions :: "nat \<rightharpoonup> session"
  pending :: "(nat \<times> async_op) list"

text \<open>The callback of a session: the captured session and the captured \<^verbatim>\<open>sql_query\<close>.\<close>

type_synonym flight_callback = "nat \<times> string"
type_synonym 'r proxy = "(flight_callback, 'r) QueryCache \<times> io"

definition run_method :: "nat \<Rightarrow> action \<Rightarrow> io \<Rightarrow> io" where
  "run_method sid m w =
     (case sessions w sid of
        None \<Rightarrow> w
      | Some s \<Rightarrow> (case m s of (s', ops) \<Rightarrow>
          w\<lparr>sessions := (sessions w)(sid \<mapsto> s'), pending := pending w @ map (Pair sid) ops\<rparr>))"

definition run_callback :: "(flight_callback, io) invoke" where
  "run_callback cb result w = (Inr (), run_method (fst cb) (on_query_result result) w)"

subsection \<open>The read handlers of the bridge\<close>

definition on_client_read :: "(string \<Rightarrow> byte list) \<Rightarrow> 'r hiredis \<Rightarrow> nat \<Rightarrow> error_code \<Rightarrow> nat \<Rightarrow>
    'r proxy \<Rightarrow> 'r proxy option" where
  "on_client_read md5 h sid ec len = (\<lambda>(qc, w).
     case sessions w sid of
       None \<Rightarrow> None
     | Some s \<Rightarrow>
         if is_destroying s then Some (qc, w)
         else if \<not> failed ec then
           if is_sql_query (client_buffer s) len then
             let sql_query = extract_sql_query (client_buffer s) len in do {
               (flight_result, qc, w) \<leftarrow> qc_doSingleFlight md5 h run_callback sql_query (sid, sql_query) (qc, w);
               case flight_result of
                 Inl e \<Rightarrow> Some (qc, w)
               | Inr CACHE_HIT \<Rightarrow> Some (qc, w)
               | Inr WAITER \<Rightarrow> Some (qc, w)
               | Inr LEADER \<Rightarrow>
                   Some (qc, run_method sid (\<lambda>s. forward_to_server len (s\<lparr>current_query := sql_query\<rparr>)) w)
             }
           else Some (qc, run_method sid (forward_to_server len) w)
         else Some (qc, run_method sid (client_read_error ec) w))"

definition on_server_read :: "(string \<Rightarrow> byte list) \<Rightarrow> 'r hiredis \<Rightarrow> nat \<Rightarrow> error_code \<Rightarrow> nat \<Rightarrow>
    'r proxy \<Rightarrow> 'r proxy option" where
  "on_server_read md5 h sid ec len = (\<lambda>(qc, w).
     case sessions w sid of
       None \<Rightarrow> None
     | Some s \<Rightarrow>
         if is_destroying s then Some (qc, w)
         else if \<not> failed ec then
           if current_query s \<noteq> [] then
             let response_str = take len (server_buffer s) in do {
               (qc, w) \<leftarrow> notifyFlightResult md5 h run_callback (current_query s) response_str (qc, w);
               Some (qc, run_method sid (\<lambda>s. forward_to_client len (s\<lparr>current_query := []\<rparr>)) w)
             }
           else Some (qc, run_method sid (forward_to_client len) w)
         else Some (qc, run_method sid (server_read_error ec) w))"

subsection \<open>Steps\<close>

text \<open>An operation completes: its effect on the session, then its handler.\<close>

definition complete :: "(string \<Rightarrow> byte list) \<Rightarrow> 'r hiredis \<Rightarrow> nat \<Rightarrow> async_op \<Rightarrow> error_code \<Rightarrow> string \<Rightarrow>
    'r proxy \<Rightarrow> 'r proxy option" where
  "complete md5 h sid op ec data = (\<lambda>(qc, w).
     case sessions w sid of
       None \<Rightarrow> None
     | Some s \<Rightarrow>
         let s = deliver op ec data s; w = w\<lparr>sessions := (sessions w)(sid \<mapsto> s)\<rparr> in
         if op_handler op = OnClientRead then on_client_read md5 h sid ec (length data) (qc, w)
         else if op_handler op = OnServerRead then on_server_read md5 h sid ec (length data) (qc, w)
         else do {
           (s', ops) \<leftarrow> on_complete (op_handler op) ec (length data) (first_byte data) s;
           Some (qc, w\<lparr>sessions := (sessions w)(sid \<mapsto> s'), pending := pending w @ map (Pair sid) ops\<rparr>)
         })"

text \<open>A new connection: the accept handler makes a session and starts it.\<close>

definition accept :: "tls_contexts \<Rightarrow> nat \<Rightarrow> string \<Rightarrow> u16 \<Rightarrow> io \<Rightarrow> io" where
  "accept ctxs sid host port w =
     run_method sid start (w\<lparr>sessions := (sessions w)(sid \<mapsto> new_session ctxs host port)\<rparr>)"

text \<open>The sessions whose callbacks wait for a flight.\<close>

definition waits_for :: "(string \<Rightarrow> flight_callback list option) \<Rightarrow> string \<Rightarrow> nat \<Rightarrow> bool" where
  "waits_for W k sid \<longleftrightarrow> (\<exists>cbs. W k = Some cbs \<and> sid \<in> fst ` set cbs)"

definition waits :: "(string \<Rightarrow> flight_callback list option) \<Rightarrow> nat \<Rightarrow> bool" where
  "waits W sid \<longleftrightarrow> (\<exists>k. waits_for W k sid)"

inductive proxy_step :: "(string \<Rightarrow> byte list) \<Rightarrow> 'r hiredis \<Rightarrow> 'r proxy \<Rightarrow> 'r proxy \<Rightarrow> bool"
  for md5 h where
  accepted: "sessions w sid = None \<Longrightarrow> proxy_step md5 h (qc, w) (qc, accept ctxs sid host port w)"
| completed: "pending w = xs @ (sid, op) # ys \<Longrightarrow> length data \<le> BUFSIZE \<Longrightarrow>
    complete md5 h sid op ec data (qc, w\<lparr>pending := xs @ ys\<rparr>) = Some p \<Longrightarrow> proxy_step md5 h (qc, w) p"
| released: "sid \<notin> fst ` set (pending w) \<Longrightarrow> \<not> waits (qc_waiting qc) sid \<Longrightarrow>
    proxy_step md5 h (qc, w) (qc, w\<lparr>sessions := (sessions w)(sid := None)\<rparr>)"

inductive_cases proxy_stepE: "proxy_step md5 h p q"

subsection \<open>Bookkeeping\<close>

definition ops_of :: "io \<Rightarrow> nat \<Rightarrow> async_op list" where
  "ops_of w sid = map snd (filter (\<lambda>p. fst p = sid) (pending w))"

lemma ops_of_start [simp]:
  "ops_of (w\<lparr>sessions := m\<rparr>) x = ops_of w x"
  by (simp add: ops_of_def)

lemma ops_of_append:
  "ops_of (w\<lparr>pending := xs @ ys\<rparr>) x = ops_of (w\<lparr>pending := xs\<rparr>) x @ ops_of (w\<lparr>pending := ys\<rparr>) x"
  by (simp add: ops_of_def)

lemma ops_of_map_Pair [simp]:
  "ops_of (w\<lparr>pending := map (Pair sid) ops\<rparr>) x = (if x = sid then ops else [])"
  by (simp add: ops_of_def) (induction ops; simp)

lemma run_method_sessions:
  "sessions (run_method sid m w) x =
     (if x = sid then map_option (fst \<circ> m) (sessions w sid) else sessions w x)"
  by (auto simp: run_method_def split: option.split prod.split)

lemma run_method_ops:
  "ops_of (run_method sid m w) x =
     ops_of w x @ (if x = sid then case sessions w sid of None \<Rightarrow> [] | Some s \<Rightarrow> snd (m s) else [])"
  by (auto simp: run_method_def ops_of_append split: option.split prod.split)

lemma run_callback_simps [simp]:
  "fst (run_callback cb r w) = Inr ()"
  "snd (run_callback cb r w) = run_method (fst cb) (on_query_result r) w"
  by (simp_all add: run_callback_def)

subsection \<open>Invariant\<close>

definition session_ok :: "bool \<Rightarrow> async_op list \<Rightarrow> session option \<Rightarrow> bool" where
  "session_ok wt ops so \<longleftrightarrow>
     (case so of None \<Rightarrow> ops = [] \<and> \<not> wt | Some s \<Rightarrow> chains_ok wt ops s)"

definition sessions_ok :: "(nat \<Rightarrow> bool) \<Rightarrow> io \<Rightarrow> bool" where
  "sessions_ok wt w \<longleftrightarrow> (\<forall>sid. session_ok (wt sid) (ops_of w sid) (sessions w sid))"

text \<open>A session waits for at most one flight, and once.\<close>

definition flights_ok :: "(string \<Rightarrow> flight_callback list option) \<Rightarrow> bool" where
  "flights_ok W \<longleftrightarrow> (\<forall>k cbs. W k = Some cbs \<longrightarrow> distinct (map fst cbs)) \<and>
     (\<forall>k j sid. waits_for W k sid \<longrightarrow> waits_for W j sid \<longrightarrow> k = j)"

definition proxy_inv :: "'r hiredis \<Rightarrow> 'r proxy \<Rightarrow> bool" where
  "proxy_inv h = (\<lambda>(qc, w). qc_safe h qc \<and> flights_ok (qc_waiting qc) \<and> sessions_ok (waits (qc_waiting qc)) w)"

lemma sessions_okD: "sessions_ok wt w \<Longrightarrow> sessions w sid = Some s \<Longrightarrow> chains_ok (wt sid) (ops_of w sid) s"
  by (auto simp: sessions_ok_def session_ok_def split: option.splits)

lemma sessions_ok_update:
  assumes "sessions_ok wt w"
    and "\<And>x. x \<noteq> sid \<Longrightarrow> wt' x = wt x \<and> ops_of w' x = ops_of w x \<and> sessions w' x = sessions w x"
    and "session_ok (wt' sid) (ops_of w' sid) (sessions w' sid)"
  shows "sessions_ok wt' w'"
proof -
  have "session_ok (wt' x) (ops_of w' x) (sessions w' x)" for x
    using assms(1,3) assms(2)[of x] by (cases "x = sid") (auto simp: sessions_ok_def)
  then show ?thesis by (simp add: sessions_ok_def)
qed

text \<open>A waiting session is served.\<close>

lemma serve_ok:
  assumes ok: "sessions_ok wt w" and "wt sid"
  shows "sessions_ok (wt(sid := False)) (run_method sid (on_query_result r) w)"
proof -
  from ok \<open>wt sid\<close> obtain s where s: "sessions w sid = Some s"
    unfolding sessions_ok_def session_ok_def by (metis option.case_eq_if option.collapse)
  with sessions_okD[OF ok s] \<open>wt sid\<close> have free: "client_free (ops_of w sid) s"
    by (simp add: waiting_client_free)
  then have "chains_ok False (ops_of w sid @ snd (on_query_result r s)) (fst (on_query_result r s))"
    by (rule client_free_continue) (use free in \<open>simp add: on_query_result_continues client_free_def\<close>)
  with s show ?thesis
    by (intro sessions_ok_update[OF ok]) (auto simp: run_method_sessions run_method_ops session_ok_def)
qed

lemma run_callbacks_ok:
  assumes "sessions_ok wt w" and "distinct (map fst cbs)" and "\<forall>sid \<in> fst ` set cbs. wt sid"
  shows "sessions_ok (\<lambda>x. wt x \<and> x \<notin> fst ` set cbs) (run_callbacks run_callback cbs r w)"
  using assms
proof (induction cbs arbitrary: wt w)
  case (Cons cb cbs)
  let ?wt = "wt(fst cb := False)"
  have "sessions_ok (\<lambda>x. ?wt x \<and> x \<notin> fst ` set cbs)
      (run_callbacks run_callback cbs r (run_method (fst cb) (on_query_result r) w))"
    using Cons.prems by (intro Cons.IH serve_ok) (auto simp: image_iff)
  moreover have "(\<lambda>x. ?wt x \<and> x \<notin> fst ` set cbs) = (\<lambda>x. wt x \<and> x \<notin> fst ` set (cb # cbs))" by auto
  moreover have "run_callbacks run_callback (cb # cbs) r w =
      run_callbacks run_callback cbs r (run_method (fst cb) (on_query_result r) w)"
    by (simp add: run_callbacks_fold)
  ultimately show ?case by (simp only:)
qed simp

text \<open>Serving a waiting session, even the one whose server chain is running, leaves the
  server chain's slot free.\<close>

definition server_slot :: "io \<Rightarrow> nat \<Rightarrow> bool" where
  "server_slot w sid \<longleftrightarrow> (\<exists>s. sessions w sid = Some s \<and> server_free (ops_of w sid) s)"

lemma serve_server_slot:
  assumes "server_slot w sid"
  shows "server_slot (run_method x (on_query_result r) w) sid"
proof (cases "x = sid")
  case True
  from assms obtain s where s: "sessions w sid = Some s" "server_free (ops_of w sid) s"
    by (auto simp: server_slot_def)
  obtain t out where r: "on_query_result r s = (t, out)" by fastforce
  with s have c: "client_continues s (t, out)"
    using on_query_result_continues[of s r] by (simp add: server_free_def)
  then have "server_free (ops_of w sid) t"
    using s(2) by (auto simp: client_continues_def intro: server_free_same_wire)
  with client_continues_counts[OF c] s r True show ?thesis
    by (simp add: server_slot_def run_method_sessions run_method_ops server_free_def)
qed (use assms in \<open>simp add: server_slot_def run_method_sessions run_method_ops\<close>)

lemma run_callbacks_server_slot:
  "server_slot w sid \<Longrightarrow> server_slot (run_callbacks run_callback cbs r w) sid"
  by (induction cbs arbitrary: w) (simp_all add: run_callbacks_fold serve_server_slot)

subsection \<open>Flights and waiting sessions\<close>

lemma flights_ok_leader:
  assumes "flights_ok W" and "W k = None"
  shows "flights_ok (W(k \<mapsto> []))" and "waits (W(k \<mapsto> [])) = waits W"
proof -
  have w: "waits_for (W(k \<mapsto> [])) = waits_for W" using assms(2) by (auto simp: fun_eq_iff waits_for_def)
  then show "waits (W(k \<mapsto> [])) = waits W" by (simp add: fun_eq_iff waits_def)
  show "flights_ok (W(k \<mapsto> []))" using assms(1) by (simp add: flights_ok_def w)
qed

lemma flights_ok_waiter:
  assumes "flights_ok W" and "W k = Some cbs" and "\<not> waits W (fst cb)"
  shows "flights_ok (W(k \<mapsto> cbs @ [cb]))" and "waits (W(k \<mapsto> cbs @ [cb])) = (waits W)(fst cb := True)"
proof -
  have w: "waits_for (W(k \<mapsto> cbs @ [cb])) j x \<longleftrightarrow> waits_for W j x \<or> j = k \<and> x = fst cb" for j x
    using assms(2) by (auto simp: waits_for_def)
  then show "waits (W(k \<mapsto> cbs @ [cb])) = (waits W)(fst cb := True)" by (auto simp: fun_eq_iff waits_def)
  from assms(2,3) have "fst cb \<notin> fst ` set cbs" by (auto simp: waits_def waits_for_def)
  with assms w show "flights_ok (W(k \<mapsto> cbs @ [cb]))"
    by (auto simp: flights_ok_def waits_def)
qed

lemma flights_ok_notify:
  fixes k :: string
  assumes "flights_ok W"
  defines "cbs \<equiv> case W k of None \<Rightarrow> [] | Some cbs \<Rightarrow> cbs"
  shows "flights_ok (W(k := None))" and "waits (W(k := None)) = (\<lambda>x. waits W x \<and> x \<notin> fst ` set cbs)"
    and "distinct (map fst cbs)" and "\<forall>x \<in> fst ` set cbs. waits W x"
proof -
  have w: "waits_for (W(k := None)) j x \<longleftrightarrow> waits_for W j x \<and> j \<noteq> k" for j x
    by (auto simp: waits_for_def)
  show "flights_ok (W(k := None))" using assms(1) by (auto simp: flights_ok_def w)
  have k: "x \<in> fst ` set cbs \<longleftrightarrow> waits_for W k x" for x
    by (cases "W k") (auto simp: waits_for_def cbs_def)
  then show "waits (W(k := None)) = (\<lambda>x. waits W x \<and> x \<notin> fst ` set cbs)"
    using assms(1) by (auto simp: fun_eq_iff waits_def w flights_ok_def)
  show "distinct (map fst cbs)" using assms(1) by (auto simp: flights_ok_def cbs_def split: option.splits)
  show "\<forall>x \<in> fst ` set cbs. waits W x" using k by (auto simp: waits_def)
qed

subsection \<open>The handlers keep the invariant\<close>

text \<open>The client chain's operation has completed and its handler runs.\<close>

definition client_slot :: "io \<Rightarrow> nat \<Rightarrow> bool" where
  "client_slot w sid \<longleftrightarrow> (\<exists>s. sessions w sid = Some s \<and> client_free (ops_of w sid) s)"

lemma client_method_ok:
  assumes ok: "sessions_ok wt w" and "\<not> wt sid" and slot: "client_slot w sid"
    and m: "\<And>s. bridged s \<Longrightarrow> client_continues s (m s)"
  shows "sessions_ok wt (run_method sid m w)"
proof -
  from slot obtain s where s: "sessions w sid = Some s" "client_free (ops_of w sid) s"
    by (auto simp: client_slot_def)
  then have "chains_ok False (ops_of w sid @ snd (m s)) (fst (m s))"
    using m[of s] by (intro client_free_continue) (auto simp: client_free_def)
  with s assms(2) show ?thesis
    by (intro sessions_ok_update[OF ok]) (auto simp: run_method_sessions run_method_ops session_ok_def)
qed

lemma server_method_ok:
  assumes ok: "sessions_ok wt w" and slot: "server_slot w sid"
    and m: "\<And>s. bridged s \<Longrightarrow> server_continues s (m s)"
  shows "sessions_ok wt (run_method sid m w)"
proof -
  from slot obtain s where s: "sessions w sid = Some s" "server_free (ops_of w sid) s"
    by (auto simp: server_slot_def)
  then have "chains_ok (wt sid) (ops_of w sid @ snd (m s)) (fst (m s))"
    using m[of s] sessions_okD[OF ok s(1)] by (intro server_free_continue) (auto simp: server_free_def)
  with s show ?thesis
    by (intro sessions_ok_update[OF ok]) (auto simp: run_method_sessions run_method_ops session_ok_def)
qed

lemma bridged_current_query [simp]: "bridged (s\<lparr>current_query := q\<rparr>) = bridged s"
  by (simp add: bridged_def plain_def tls_def)

lemma lead_continues:
  "bridged s \<Longrightarrow> client_continues s (forward_to_server len (s\<lparr>current_query := q\<rparr>))"
  "bridged s \<Longrightarrow> server_continues s (forward_to_client len (s\<lparr>current_query := q\<rparr>))"
  using forward_to_server_continues[of "s\<lparr>current_query := q\<rparr>" len]
    forward_to_client_continues[of "s\<lparr>current_query := q\<rparr>" len]
  by (simp_all add: client_continues_def server_continues_def)

lemma on_client_read_ok:
  assumes inv: "proxy_inv h (qc, w)" and nw: "\<not> waits (qc_waiting qc) sid" and slot: "client_slot w sid"
  shows "\<exists>p. on_client_read md5 h sid ec len (qc, w) = Some p \<and> proxy_inv h p"
proof -
  from inv have safe: "qc_safe h qc" and fl: "flights_ok (qc_waiting qc)"
    and ok: "sessions_ok (waits (qc_waiting qc)) w" by (auto simp: proxy_inv_def)
  from slot obtain s where s: "sessions w sid = Some s" "client_free (ops_of w sid) s"
    by (auto simp: client_slot_def)
  note meth = client_method_ok[OF ok nw slot]
  let ?q = "extract_sql_query (client_buffer s) len"
  consider (gone) "is_destroying s" | (error) "\<not> is_destroying s" "failed ec"
    | (other) "\<not> is_destroying s" "\<not> failed ec" "\<not> is_sql_query (client_buffer s) len"
    | (query) "\<not> is_destroying s" "\<not> failed ec" "is_sql_query (client_buffer s) len" by blast
  then show ?thesis
  proof cases
    case gone
    with s inv show ?thesis by (simp add: on_client_read_def)
  next
    case error
    with s safe fl meth[of "client_read_error ec"] show ?thesis
      by (simp add: on_client_read_def proxy_inv_def read_error_continues)
  next
    case other
    with s safe fl meth[of "forward_to_server len"] show ?thesis
      by (simp add: on_client_read_def proxy_inv_def forward_to_server_continues)
  next
    case query
    show ?thesis
    proof (cases rule: qc_doSingleFlight_cases[OF safe, of run_callback md5 ?q "(sid, ?q)" w,
          OF run_callback_simps(1), case_names hit leader waiter])
      case (hit v qc')
      with query s fl meth[of "on_query_result v"] show ?thesis
        by (simp add: on_client_read_def Let_def proxy_inv_def on_query_result_continues)
    next
      case (leader qc')
      with query s meth[of "\<lambda>s. forward_to_server len (s\<lparr>current_query := ?q\<rparr>)"]
        flights_ok_leader[OF fl leader(3)] show ?thesis
        by (simp add: on_client_read_def Let_def proxy_inv_def lead_continues)
    next
      case (waiter cbs qc')
      have "sessions_ok ((waits (qc_waiting qc))(sid := True)) w"
        using s by (intro sessions_ok_update[OF ok]) (auto simp: session_ok_def waiting_client_free)
      with query s waiter flights_ok_waiter[OF fl waiter(3), of "(sid, ?q)"] nw show ?thesis
        by (simp add: on_client_read_def Let_def proxy_inv_def)
    qed
  qed
qed

lemma on_server_read_ok:
  assumes inv: "proxy_inv h (qc, w)" and slot: "server_slot w sid"
  shows "\<exists>p. on_server_read md5 h sid ec len (qc, w) = Some p \<and> proxy_inv h p"
proof -
  from inv have safe: "qc_safe h qc" and fl: "flights_ok (qc_waiting qc)"
    and ok: "sessions_ok (waits (qc_waiting qc)) w" by (auto simp: proxy_inv_def)
  from slot obtain s where s: "sessions w sid = Some s" by (auto simp: server_slot_def)
  note meth = server_method_ok[OF ok slot]
  consider (gone) "is_destroying s" | (error) "\<not> is_destroying s" "failed ec"
    | (other) "\<not> is_destroying s" "\<not> failed ec" "current_query s = []"
    | (result) "\<not> is_destroying s" "\<not> failed ec" "current_query s \<noteq> []" by blast
  then show ?thesis
  proof cases
    case gone
    with s inv show ?thesis by (simp add: on_server_read_def)
  next
    case error
    with s safe fl meth[of "server_read_error ec"] show ?thesis
      by (simp add: on_server_read_def proxy_inv_def read_error_continues)
  next
    case other
    with s safe fl meth[of "forward_to_client len"] show ?thesis
      by (simp add: on_server_read_def proxy_inv_def forward_to_client_continues)
  next
    case result
    let ?r = "take len (server_buffer s)" and ?k = "hash_query md5 (current_query s)"
    define cbs where "cbs = (case qc_waiting qc ?k of None \<Rightarrow> [] | Some cbs \<Rightarrow> cbs)"
    note n = flights_ok_notify[OF fl, of ?k, folded cbs_def]
    from notifyFlightResult_flight[OF safe, of md5 run_callback "current_query s" ?r w] obtain qc' where
      q: "notifyFlightResult md5 h run_callback (current_query s) ?r (qc, w) =
          Some (qc', run_callbacks run_callback cbs ?r w)"
        "qc_safe h qc'" "qc_waiting qc' = (qc_waiting qc)(?k := None)"
      unfolding cbs_def by blast
    let ?w = "run_callbacks run_callback cbs ?r w"
    have "sessions_ok (waits (qc_waiting qc')) ?w"
      unfolding q(3) n(2) by (rule run_callbacks_ok[OF ok n(3,4)])
    then have "sessions_ok (waits (qc_waiting qc'))
        (run_method sid (\<lambda>s. forward_to_client len (s\<lparr>current_query := []\<rparr>)) ?w)"
      by (rule server_method_ok[OF _ run_callbacks_server_slot[OF slot]]) (rule lead_continues)
    with result s q n(1) show ?thesis by (simp add: on_server_read_def Let_def proxy_inv_def)
  qed
qed

lemma complete_method:
  assumes "sessions w sid = Some s0" and "op_handler op \<noteq> OnClientRead" "op_handler op \<noteq> OnServerRead"
    and "on_complete (op_handler op) ec (length data) (first_byte data) (deliver op ec data s0) = Some (m (deliver op ec data s0))"
  shows "complete md5 h sid op ec data (qc, w) =
    Some (qc, run_method sid m (w\<lparr>sessions := (sessions w)(sid \<mapsto> deliver op ec data s0)\<rparr>))"
  using assms by (simp add: complete_def Let_def run_method_def split: prod.split)

lemma complete_ok:
  assumes inv: "proxy_inv h (qc, w)" and pend: "pending w = xs @ (sid, op) # ys" and len: "length data \<le> BUFSIZE"
  shows "\<exists>p. complete md5 h sid op ec data (qc, w\<lparr>pending := xs @ ys\<rparr>) = Some p \<and> proxy_inv h p"
proof -
  let ?W = "qc_waiting qc" and ?n = "length data"
  define as bs where ab: "as = ops_of (w\<lparr>pending := xs\<rparr>) sid" "bs = ops_of (w\<lparr>pending := ys\<rparr>) sid"
  have ops: "ops_of w sid = as @ op # bs" using pend by (simp add: ab ops_of_def)
  from inv have safe: "qc_safe h qc" and fl: "flights_ok ?W" and ok: "sessions_ok (waits ?W) w"
    by (auto simp: proxy_inv_def)
  from ok ops obtain s0 where s0: "sessions w sid = Some s0"
    by (cases "sessions w sid") (auto simp: sessions_ok_def session_ok_def dest: spec[of _ sid])
  with sessions_okD[OF ok s0] ops have ch: "chains_ok (waits ?W sid) (as @ op # bs) s0" by simp
  define s where "s = deliver op ec data s0"
  have wire: "same_wire s0 s"
    unfolding s_def using ch len by (intro deliver_same_wire) (auto simp: chains_ok_def)
  from ch have ch: "chains_ok (waits ?W sid) (as @ op # bs) s" by (rule chains_ok_same_wire) (rule wire)
  define w1 where "w1 = w\<lparr>pending := xs @ ys, sessions := (sessions w)(sid \<mapsto> s)\<rparr>"
  have w1: "sessions w1 sid = Some s" "ops_of w1 sid = as @ bs"
    "x \<noteq> sid \<Longrightarrow> ops_of w1 x = ops_of w x \<and> sessions w1 x = sessions w x" for x
    using pend by (auto simp: w1_def ab ops_of_def)
  have ok1: "sessions_ok (waits ?W) w1" if "chains_ok (waits ?W sid) (as @ bs) s"
    by (rule sessions_ok_update[OF ok, of sid]) (use w1 that in \<open>auto simp: session_ok_def\<close>)
  have meth: "complete md5 h sid op ec data (qc, w\<lparr>pending := xs @ ys\<rparr>) = Some (qc, run_method sid m w1)"
    if "op_handler op \<noteq> OnClientRead" "op_handler op \<noteq> OnServerRead"
      "on_complete (op_handler op) ec ?n (first_byte data) s = Some (m s)" for m
    using complete_method[of "w\<lparr>pending := xs @ ys\<rparr>" sid s0 op ec data m] that s0 by (simp add: s_def w1_def)
  consider (startup) "startup_handler (op_handler op)" | (client) "client_handler (op_handler op)"
    | (server) "server_handler (op_handler op)" using handler_class by blast
  then show ?thesis
  proof cases
    case startup
    with completed_startup[OF ch] have alone: "\<not> waits ?W sid" "as @ bs = []" by auto
    from ch startup obtain r where r: "on_complete (op_handler op) ec ?n (first_byte data) s = Some r" "starts_ok r"
      using startup_handlers_start[OF startup, of s ec ?n "first_byte data"] by (auto simp: chains_ok_def op_ok_def)
    from alone have "sessions_ok (waits ?W) (run_method sid (\<lambda>_. r) w1)"
      by (intro sessions_ok_update[OF ok, of sid])
         (use w1 r(2) in \<open>auto simp: run_method_sessions run_method_ops session_ok_def starts_ok_def\<close>)
    moreover have "op_handler op \<noteq> OnClientRead" "op_handler op \<noteq> OnServerRead" using startup by auto
    ultimately show ?thesis using meth[of "\<lambda>_. r"] r(1) safe fl by (simp add: proxy_inv_def)
  next
    case client
    from completed_client_free[OF ch client] have nw: "\<not> waits ?W sid" and free: "client_free (as @ bs) s" by auto
    have ok1: "sessions_ok (waits ?W) w1" using free nw by (intro ok1) (simp add: client_free_def)
    have slot: "client_slot w1 sid" using free w1 by (simp add: client_slot_def)
    show ?thesis
    proof (cases "op_handler op = OnClientRead")
      case True
      then have "complete md5 h sid op ec data (qc, w\<lparr>pending := xs @ ys\<rparr>) = on_client_read md5 h sid ec ?n (qc, w1)"
        using s0 by (simp add: complete_def Let_def w1_def s_def)
      with on_client_read_ok[of h qc w1 sid md5 ec ?n] slot nw ok1 safe fl show ?thesis
        by (simp add: proxy_inv_def)
    next
      case False
      with client meth[of "on_response_sent ec"] meth[of "on_forwarded ec"] show ?thesis
        using client_method_ok[OF ok1 nw slot, of "on_response_sent ec"]
          client_method_ok[OF ok1 nw slot, of "on_forwarded ec"] client_handlers_continue safe fl
        by (auto simp: client_handler_def proxy_inv_def)
    qed
  next
    case server
    from completed_server_free[OF ch server] have ok1: "sessions_ok (waits ?W) w1" and slot: "server_slot w1 sid"
      using ok1 w1 by (auto simp: server_slot_def)
    show ?thesis
    proof (cases "op_handler op = OnServerRead")
      case True
      then have "complete md5 h sid op ec data (qc, w\<lparr>pending := xs @ ys\<rparr>) = on_server_read md5 h sid ec ?n (qc, w1)"
        using s0 by (simp add: complete_def Let_def w1_def s_def)
      with on_server_read_ok[of h qc w1 sid md5 ec ?n] slot ok1 safe fl show ?thesis
        by (simp add: proxy_inv_def)
    next
      case False
      with server meth[of "on_to_client ec"] show ?thesis
        using server_method_ok[OF ok1 slot, of "on_to_client ec"] server_handler_continues safe fl
        by (auto simp: server_handler_def proxy_inv_def)
    qed
  qed
qed

lemma accept_ok:
  assumes "sessions_ok wt w" and "sessions w sid = None"
  shows "sessions_ok wt (accept ctxs sid host port w)"
proof -
  let ?s = "new_session ctxs host port"
  have "plain ?s" "buffers_ok ?s" by (simp_all add: new_session_def plain_def buffers_ok_def)
  then have "starts_ok (start ?s)" by (rule start_starts)
  moreover from assms have "ops_of w sid = []" "\<not> wt sid"
    by (auto simp: sessions_ok_def session_ok_def dest: spec[of _ sid])
  ultimately show ?thesis
    by (intro sessions_ok_update[OF assms(1), of sid])
       (auto simp: accept_def run_method_sessions run_method_ops session_ok_def starts_ok_def split: prod.splits)
qed

lemma proxy_step_inv:
  assumes "proxy_step md5 h p q" and "proxy_inv h p"
  shows "proxy_inv h q"
  using assms
proof (induction rule: proxy_step.induct)
  case (accepted w sid qc ctxs host port)
  then show ?case by (simp add: proxy_inv_def accept_ok)
next
  case (completed w xs sid op ys data ec qc p)
  then show ?case using complete_ok[of h qc w xs sid op ys data md5 ec] by auto
next
  case (released sid w qc)
  then have "ops_of w sid = []" by (force simp: ops_of_def filter_empty_conv)
  with released show ?case
    by (auto simp: proxy_inv_def session_ok_def intro: sessions_ok_update[of _ w sid])
qed

definition proxy_start :: "'r hiredis \<Rightarrow> 'r proxy \<Rightarrow> bool" where
  "proxy_start h = (\<lambda>(qc, w). qc_safe h qc \<and> qc_waiting qc = Map.empty \<and>
     w = \<lparr>sessions = Map.empty, pending = []\<rparr>)"

interpretation proxy: invariant "proxy_start h" "proxy_step md5 h" "proxy_inv h" for md5 h
proof unfold_locales
  fix p
  assume "proxy_start h p"
  then show "proxy_inv h p"
    by (auto simp: proxy_start_def proxy_inv_def flights_ok_def waits_for_def waits_def sessions_ok_def
        session_ok_def ops_of_def)
qed (rule proxy_step_inv)

subsection \<open>Properties\<close>

text \<open>In every reachable state every operation in flight may complete, with any
  outcome: its handler never dereferences an empty \<^verbatim>\<open>std::optional\<close>, never runs on a released
  session, and never makes an undefined call on the cache.\<close>

theorem proxy_never_undefined:
  assumes "reachable (proxy_start h) (proxy_step md5 h) (qc, w)"
    and "pending w = xs @ (sid, op) # ys" and "length data \<le> BUFSIZE"
  shows "complete md5 h sid op ec data (qc, w\<lparr>pending := xs @ ys\<rparr>) \<noteq> None"
  using complete_ok[OF proxy.reachable_inv[OF assms(1)] assms(2,3), of md5 ec] by auto

lemma qc_safe_init: "qc_safe h (qc_init h r)"
  by (simp add: qc_safe_def qc_inv_init l1_safe_def) (simp add: qc_init_def l1_init_def l1_inv_init[unfolded l1_init_def])

lemma qc_waiting_init [simp]: "qc_waiting (qc_init h r) = Map.empty"
  by (simp add: qc_waiting_def qc_init_def)

abbreviation idle_proxy :: "unit proxy" where
  "idle_proxy \<equiv> (qc_init no_redis (), \<lparr>sessions = Map.empty, pending = []\<rparr>)"

lemma idle_proxy_start: "proxy_start no_redis idle_proxy"
  by (simp add: proxy_start_def qc_safe_init)

lemma accept_first:
  "reachable (proxy_start no_redis) (proxy_step md5 no_redis)
     (qc_init no_redis (), accept tls_ok 0 ''db'' 5432 \<lparr>sessions = Map.empty, pending = []\<rparr>)"
  by (rule reachable_step[OF reachable_start[of "proxy_start no_redis", OF idle_proxy_start]])
     (simp add: proxy_step.accepted)

lemma accept_first_simps:
  "pending (accept tls_ok 0 ''db'' 5432 \<lparr>sessions = Map.empty, pending = []\<rparr>) =
     [(0, AsyncResolve ''db'' ''5432'' (OnResolved AfterStart))]"
  "sessions (accept tls_ok 0 ''db'' 5432 \<lparr>sessions = Map.empty, pending = []\<rparr>) = [0 \<mapsto> new_session tls_ok ''db'' 5432]"
  by (simp_all add: accept_def run_method_def session_method_defs new_session_def to_string_def dec_nat.simps)

theorem proxy_never_undefined_witness:
  "complete (\<lambda>q. replicate 16 0) no_redis 0 (AsyncResolve ''db'' ''5432'' (OnResolved AfterStart))
     success [] (qc_init no_redis (), (accept tls_ok 0 ''db'' 5432 \<lparr>sessions = Map.empty, pending = []\<rparr>)\<lparr>pending := [] @ []\<rparr>) \<noteq> None"
  by (rule proxy_never_undefined[OF accept_first]) (simp_all add: accept_first_simps)

text \<open>The directions of an operation.\<close>

fun reads_client :: "async_op \<Rightarrow> bool" where
  "reads_client (AsyncReadSome e hnd) = (e = ClientTcp \<or> e = ClientSsl)"
| "reads_client op = False"

fun reads_server :: "async_op \<Rightarrow> bool" where
  "reads_server (AsyncReadSome e hnd) = (e = ServerTcp \<or> e = ServerSsl)"
| "reads_server (AsyncReadByte e hnd) = (e = ServerTcp \<or> e = ServerSsl)"
| "reads_server op = False"

fun writes_server :: "async_op \<Rightarrow> bool" where
  "writes_server (AsyncWrite e bytes hnd) = (e = ServerTcp \<or> e = ServerSsl)"
| "writes_server op = False"

lemma direction_handler:
  assumes "op_typed op"
  shows "reads_client op \<or> writes_server op \<Longrightarrow> startup_handler (op_handler op) \<or> client_handler (op_handler op)"
    and "reads_server op \<Longrightarrow> startup_handler (op_handler op) \<or> server_handler (op_handler op)"
    and "\<not> (reads_client op \<and> writes_server op)"
  using assms by (cases op; auto simp: client_handler_def server_handler_def split: if_splits)+

lemma direction_counts:
  assumes "\<forall>op \<in> set ops. op_typed op"
  shows "length (filter reads_client ops) + length (filter writes_server ops) \<le> startups ops + clients ops"
    and "length (filter reads_server ops) \<le> startups ops + servers ops"
  using assms
proof (induction ops)
  case (Cons op ops)
  { case 1 then show ?case using Cons.IH(1) direction_handler[of op] by (auto simp: chain_Cons) }
  { case 2 then show ?case using Cons.IH(2) direction_handler[of op] by (auto simp: chain_Cons) }
qed simp_all

text \<open>Property C7: in every reachable state a session has at most one read from its client or write to
  its server outstanding (so the buffer both use is never overwritten while it is being
  sent), at most one read from its server, and while it waits for a flight neither a read
  from its client nor a write to its server.\<close>

theorem proxy_two_chains:
  assumes "reachable (proxy_start h) (proxy_step md5 h) (qc, w)"
  shows "length (filter reads_client (ops_of w sid)) + length (filter writes_server (ops_of w sid)) \<le> 1 \<and>
    length (filter reads_server (ops_of w sid)) \<le> 1 \<and>
    (waits (qc_waiting qc) sid \<longrightarrow> filter reads_client (ops_of w sid) = [] \<and> filter writes_server (ops_of w sid) = [])"
proof (cases "sessions w sid")
  case None
  from proxy.reachable_inv[OF assms] have "session_ok (waits (qc_waiting qc) sid) (ops_of w sid) (sessions w sid)"
    by (auto simp: proxy_inv_def sessions_ok_def)
  with None show ?thesis by (simp add: session_ok_def)
next
  case (Some s)
  with proxy.reachable_inv[OF assms] have ch: "chains_ok (waits (qc_waiting qc) sid) (ops_of w sid) s"
    by (auto simp: proxy_inv_def dest: sessions_okD)
  then have "\<forall>op \<in> set (ops_of w sid). op_typed op" by (simp add: chains_ok_def op_ok_def)
  from direction_counts[OF this] ch show ?thesis
    by (cases "waits (qc_waiting qc) sid") (auto simp: chains_ok_def simp flip: length_0_conv)
qed

theorem proxy_two_chains_witness:
  "length (filter reads_server (ops_of (accept tls_ok 0 ''db'' 5432 \<lparr>sessions = Map.empty, pending = []\<rparr>) 0)) \<le> 1"
  using proxy_two_chains[OF accept_first, where sid = 0] by blast

end
