(* ===== verification/Proxy_Server.thy ===== *)
theory Proxy_Server
  imports Proxy_System
begin

section \<open>ProxyServer\<close>

text \<open>
  The class \<^verbatim>\<open>ProxyServer\<close> of \<^verbatim>\<open>src/src/ProxyServer\<close>: an acceptor that arms one \<^verbatim>\<open>async_accept\<close> at a time, makes a
  session for every connection, and stops. A state of the whole program is the server with the
  sessions and the cache; every step of it is a step of \<open>Proxy_System\<close> or leaves the sessions
  alone, so what is proved there holds here.
\<close>

subsection \<open>State and operations\<close>

record ProxyServer =
  ps_endpoint :: "string \<times> u16"
  ps_db_host :: string
  ps_db_port :: u16
  accepting :: bool
  acceptor_open :: bool
  accept_ops :: nat

definition do_accept :: "ProxyServer \<Rightarrow> ProxyServer" where
  "do_accept srv = (if \<not> accepting srv then srv else srv\<lparr>accept_ops := accept_ops srv + 1\<rparr>)"

text \<open>The constructor; \<open>binds\<close> stands for Asio's address parser and the acceptor's constructor, which may throw. The
  port is a \<^verbatim>\<open>short\<close> that the endpoint takes as \<^verbatim>\<open>unsigned short\<close>, which keeps its bits.\<close>

definition ProxyServer_new :: "(string \<Rightarrow> u16 \<Rightarrow> string + unit) \<Rightarrow> string \<Rightarrow> u16 \<Rightarrow> string \<Rightarrow> u16 \<Rightarrow> string + ProxyServer" where
  "ProxyServer_new binds listen_address port host db =
     (case binds listen_address port of
        Inl e \<Rightarrow> Inl e
      | Inr _ \<Rightarrow> Inr (do_accept \<lparr>ps_endpoint = (listen_address, port), ps_db_host = host, ps_db_port = db,
                               accepting = True, acceptor_open = True, accept_ops = 0\<rparr>))"

definition shutdown :: "ProxyServer \<Rightarrow> ProxyServer" where
  "shutdown srv = srv\<lparr>accepting := False, acceptor_open := False\<rparr>"

text \<open>The handler of \<^verbatim>\<open>async_accept\<close>; \<open>ctxs\<close> are the contexts of \<^verbatim>\<open>SharedSSLContext::getInstance()\<close>, \<open>sid\<close> names the session that is made.\<close>

definition on_accept :: "tls_contexts \<Rightarrow> error_code \<Rightarrow> nat \<Rightarrow> ProxyServer \<times> io \<Rightarrow> ProxyServer \<times> io" where
  "on_accept ctxs ec sid = (\<lambda>(srv, w).
     let w = (if \<not> failed ec \<and> accepting srv then accept ctxs sid (ps_db_host srv) (ps_db_port srv) w else w) in
     (if accepting srv then do_accept srv else srv, w))"

type_synonym 'r program = "ProxyServer \<times> (flight_callback, 'r) QueryCache \<times> io"

inductive program_step :: "(string \<Rightarrow> byte list) \<Rightarrow> 'r hiredis \<Rightarrow> 'r program \<Rightarrow> 'r program \<Rightarrow> bool"
  for md5 h where
  accept_completed: "0 < accept_ops srv \<Longrightarrow> sessions w sid = None \<Longrightarrow>
    on_accept ctxs ec sid (srv\<lparr>accept_ops := accept_ops srv - 1\<rparr>, w) = (srv', w') \<Longrightarrow>
    program_step md5 h (srv, qc, w) (srv', qc, w')"
| session_completed: "pending w = xs @ (sid, op) # ys \<Longrightarrow> length data \<le> BUFSIZE \<Longrightarrow>
    complete md5 h sid op ec data (qc, w\<lparr>pending := xs @ ys\<rparr>) = Some (qc', w') \<Longrightarrow>
    program_step md5 h (srv, qc, w) (srv, qc', w')"
| session_released: "sid \<notin> fst ` set (pending w) \<Longrightarrow> \<not> waits (qc_waiting qc) sid \<Longrightarrow>
    program_step md5 h (srv, qc, w) (srv, qc, w\<lparr>sessions := (sessions w)(sid := None)\<rparr>)"
| shut_down: "program_step md5 h (srv, qc, w) (shutdown srv, qc, w)"

text \<open>The step relation of the sessions is refined.\<close>

lemma program_step_refines:
  assumes "program_step md5 h s t"
  shows "proxy_step md5 h (snd s) (snd t) \<or> snd s = snd t"
  using assms
proof (induction rule: program_step.induct)
  case (accept_completed srv w sid ctxs ec srv' w' qc)
  then show ?case using proxy_step.accepted[of w sid md5 h qc ctxs "ps_db_host srv" "ps_db_port srv"]
    by (auto simp: on_accept_def Let_def split: if_splits)
next
  case (session_completed w xs sid op ys data ec qc qc' w' srv)
  then show ?case using proxy_step.completed[of w xs sid op ys data md5 h ec qc "(qc', w')"] by simp
next
  case (session_released sid w qc srv)
  then show ?case using proxy_step.released[of sid w qc md5 h] by simp
qed simp

definition program_inv :: "'r hiredis \<Rightarrow> 'r program \<Rightarrow> bool" where
  "program_inv h = (\<lambda>(srv, qc, w). proxy_inv h (qc, w) \<and> accept_ops srv \<le> 1 \<and>
     (accepting srv \<longrightarrow> accept_ops srv = 1) \<and> acceptor_open srv = accepting srv)"

definition program_start :: "'r hiredis \<Rightarrow> 'r program \<Rightarrow> bool" where
  "program_start h = (\<lambda>(srv, qc, w). proxy_start h (qc, w) \<and> accepting srv \<and> acceptor_open srv \<and> accept_ops srv = 1)"

lemma program_step_inv:
  assumes step: "program_step md5 h s t" and inv: "program_inv h s"
  shows "program_inv h t"
proof -
  from program_step_refines[OF step] inv have "proxy_inv h (snd t)"
    by (auto simp: program_inv_def intro: proxy_step_inv)
  with step inv show ?thesis
    by (induction rule: program_step.induct)
       (auto simp: program_inv_def on_accept_def do_accept_def shutdown_def Let_def split: if_splits)
qed

interpretation program: invariant "program_start h" "program_step md5 h" "program_inv h" for md5 h
proof unfold_locales
  fix s assume "program_start h s"
  then show "program_inv h s"
    using proxy.inv_start[of h] by (auto simp: program_start_def program_inv_def)
qed (rule program_step_inv)

subsection \<open>Handlers make no sessions\<close>

lemma run_method_None [simp]: "sessions w x = None \<Longrightarrow> sessions (run_method sid m w) x = None"
  by (auto simp: run_method_sessions)

lemma run_callbacks_None: "sessions w x = None \<Longrightarrow> sessions (run_callbacks run_callback cbs r w) x = None"
  by (induction cbs arbitrary: w) (simp_all add: run_callbacks_fold)

lemma on_client_read_None:
  assumes safe: "qc_safe h qc" and none: "sessions w x = None"
    and r: "on_client_read md5 h sid ec len (qc, w) = Some (qc', w')"
  shows "sessions w' x = None"
proof -
  from r obtain s where s: "sessions w sid = Some s" by (auto simp: on_client_read_def split: option.splits)
  let ?q = "extract_sql_query (client_buffer s) len"
  show ?thesis
    by (cases rule: qc_doSingleFlight_cases[OF safe, of run_callback md5 ?q "(sid, ?q)" w, OF run_callback_simps(1)])
       (use r s none in \<open>auto simp: on_client_read_def Let_def split: if_splits\<close>)
qed

lemma on_server_read_None:
  assumes safe: "qc_safe h qc" and none: "sessions w x = None"
    and r: "on_server_read md5 h sid ec len (qc, w) = Some (qc', w')"
  shows "sessions w' x = None"
proof -
  from r obtain s where s: "sessions w sid = Some s" by (auto simp: on_server_read_def split: option.splits)
  from notifyFlightResult_flight[OF safe, of md5 run_callback "current_query s" "take len (server_buffer s)" w] r s none
  show ?thesis by (auto simp: on_server_read_def Let_def run_callbacks_None split: if_splits)
qed

lemma complete_None:
  assumes safe: "qc_safe h qc" and none: "sessions w x = None"
    and c: "complete md5 h sid op ec data (qc, w) = Some (qc', w')"
  shows "sessions w' x = None"
proof -
  from c obtain s where s: "sessions w sid = Some s" by (auto simp: complete_def split: option.splits)
  let ?w = "w\<lparr>sessions := (sessions w)(sid \<mapsto> deliver op ec data s)\<rparr>"
  have "sessions ?w x = None" using s none by auto
  with c s on_client_read_None[OF safe, of ?w x md5 sid ec "length data"]
    on_server_read_None[OF safe, of ?w x md5 sid ec "length data"] show ?thesis
    by (auto simp: complete_def Let_def bind_eq_Some_conv split: if_splits)
qed

lemma closed_step:
  assumes step: "program_step md5 h s t" and inv: "program_inv h s" and closed: "\<not> accepting (fst s)"
  shows "\<not> accepting (fst t) \<and> accept_ops (fst t) \<le> accept_ops (fst s) \<and>
    (sessions (snd (snd s)) x = None \<longrightarrow> sessions (snd (snd t)) x = None)"
  using assms
proof (induction rule: program_step.induct)
  case (session_completed w xs sid op ys data ec qc qc' w' srv)
  then have "qc_safe h qc" by (simp add: program_inv_def proxy_inv_def)
  from complete_None[OF this _ session_completed(3), of x] session_completed show ?case by auto
qed (auto simp: on_accept_def Let_def shutdown_def)

subsection \<open>Properties\<close>

text \<open>Property C27: in every reachable state at most one accept is armed, exactly one while the server
  accepts, and the acceptor is open exactly then.\<close>

theorem one_accept_armed:
  assumes "reachable (program_start h) (program_step md5 h) (srv, qc, w)"
  shows "accept_ops srv \<le> 1 \<and> (accepting srv \<longrightarrow> accept_ops srv = 1) \<and> acceptor_open srv = accepting srv"
  using program.reachable_inv[OF assms] by (simp add: program_inv_def)

definition server_5000 :: ProxyServer where
  "server_5000 = \<lparr>ps_endpoint = (''0.0.0.0'', 5000), ps_db_host = ''db'', ps_db_port = 5432, accepting = True,
     acceptor_open = True, accept_ops = 1\<rparr>"

lemma server_5000_reachable:
  "reachable (program_start no_redis) (program_step md5 no_redis) (server_5000, idle_proxy)"
  by (rule reachable_start) (use idle_proxy_start in \<open>simp add: program_start_def server_5000_def\<close>)

theorem one_accept_armed_witness:
  "accept_ops (shutdown server_5000) \<le> 1 \<and> acceptor_open (shutdown server_5000) = accepting (shutdown server_5000)"
  using one_accept_armed[OF reachable_step[OF server_5000_reachable program_step.shut_down]] by blast

text \<open>Property C26: after \<^verbatim>\<open>shutdown\<close> no session is ever made again, not even for a connection whose accept
  was armed before, and accepting is never resumed; the sessions that exist go on.\<close>

theorem shutdown_is_final:
  assumes "reachable (program_start h) (program_step md5 h) (srv, qc, w)"
    and "(program_step md5 h)\<^sup>*\<^sup>* (shutdown srv, qc, w) (srv', qc', w')" and "sessions w sid = None"
  shows "sessions w' sid = None \<and> \<not> accepting srv' \<and> accept_ops srv' \<le> accept_ops srv"
proof -
  have inv: "program_inv h (shutdown srv, qc, w)"
    using program.reachable_inv[OF reachable_step[OF assms(1) program_step.shut_down]] .
  from assms(2) have "program_inv h (srv', qc', w') \<and> sessions w' sid = None \<and> \<not> accepting srv' \<and>
      accept_ops srv' \<le> accept_ops srv"
  proof (induction "(srv', qc', w')" arbitrary: srv' qc' w' rule: rtranclp_induct)
    case base
    then show ?case using inv assms(3) by (simp add: shutdown_def)
  next
    case (step y)
    obtain s1 q1 w1 where y: "y = (s1, q1, w1)" by (cases y)
    with step(3)[OF y] closed_step[OF step(2), of sid] program_step_inv[OF step(2)] show ?case by auto
  qed
  then show ?thesis by blast
qed

theorem shutdown_is_final_witness:
  "\<exists>w'. on_accept tls_ok success 0 ((shutdown server_5000)\<lparr>accept_ops := accept_ops (shutdown server_5000) - 1\<rparr>, snd idle_proxy) =
      ((shutdown server_5000)\<lparr>accept_ops := 0\<rparr>, w') \<and> sessions w' 0 = None"
proof -
  let ?srv = "(shutdown server_5000)\<lparr>accept_ops := 0\<rparr>"
  obtain w' where a: "on_accept tls_ok success 0 ((shutdown server_5000)\<lparr>accept_ops := accept_ops (shutdown server_5000) - 1\<rparr>, snd idle_proxy) =
      (?srv, w')" by (simp add: on_accept_def Let_def shutdown_def server_5000_def)
  have "program_step (\<lambda>q. replicate 16 0) no_redis (shutdown server_5000, fst idle_proxy, snd idle_proxy) (?srv, fst idle_proxy, w')"
    by (rule program_step.accept_completed[OF _ _ a]) (simp_all add: shutdown_def server_5000_def)
  then have "(program_step (\<lambda>q. replicate 16 0) no_redis)\<^sup>*\<^sup>* (shutdown server_5000, fst idle_proxy, snd idle_proxy)
      (?srv, fst idle_proxy, w')" by blast
  from shutdown_is_final[OF _ this, of 0] server_5000_reachable a show ?thesis by simp
qed

end
