(* ===== verification/Main_Program.thy ===== *)
theory Main_Program
  imports Config_Model Proxy_Server
begin

section \<open>The main program\<close>

text \<open>
  \<^verbatim>\<open>src/src/main.cpp\<close>: loading the configuration, setting up the cache and the server, and the end of the program by a
  signal. \<open>main_init\<close> is \<^verbatim>\<open>main\<close> up to the point where the worker threads run, \<open>main_exit\<close> what
  follows once they are joined; what the worker threads do is the step relation of
  \<open>Proxy_Server\<close>.
\<close>

subsection \<open>Log level\<close>

datatype log_level = Trace | Debug | Info | Warn | Err

definition tolower :: "char \<Rightarrow> char" where
  "tolower c = (if 65 \<le> (of_char c :: nat) \<and> (of_char c :: nat) \<le> 90 then char_of ((of_char c :: nat) + 32) else c)"

definition set_level :: "string \<Rightarrow> log_level" where
  "set_level s = (let level_str = map tolower s in
     if level_str = ''trace'' then Trace
     else if level_str = ''debug'' then Debug
     else if level_str = ''info'' then Info
     else if level_str = ''warn'' then Warn
     else if level_str = ''error'' then Err
     else Info)"

subsection \<open>Start\<close>

text \<open>The three pointers of the signal handler are set together and reset together.\<close>

record 'r process =
  proc_level :: log_level
  proc_threads :: "32 word"
  proc_server :: ProxyServer
  proc_cache :: "(flight_callback, 'r) QueryCache"
  globals_set :: bool
  work_guard :: bool
  io_stopped :: bool

definition config_path :: "string list \<Rightarrow> string" where
  "config_path argv = (if 1 < length argv then argv ! 1 else ''config.yaml'')"

definition configure_cache :: "'r hiredis \<Rightarrow> Config \<Rightarrow> ('cb, 'r) QueryCache \<Rightarrow> ('cb, 'r) QueryCache" where
  "configure_cache h config cache =
     (let cache = cache\<lparr>qc_l1 := setL1MaxSize (cfg_l1_max_size config) (qc_l1 cache)\<rparr>;
          cache = cache\<lparr>qc_l1 := setL1Enabled (cfg_l1_enabled config) (qc_l1 cache)\<rparr> in
      if cfg_redis_enabled config
      then cache\<lparr>qc_l2 := setRedisConfig h (cfg_redis_host config) (cfg_redis_port config)
             (cfg_redis_timeout_ms config) (qc_l2 cache)\<rparr>
      else cache)"

text \<open>The left side is the exit code of a start that failed.\<close>

definition main_init :: "'n yaml \<Rightarrow> 'r hiredis \<Rightarrow> (string \<Rightarrow> u16 \<Rightarrow> string + unit) \<Rightarrow> 'r \<Rightarrow> string list \<Rightarrow> int + 'r process" where
  "main_init y h binds redis argv =
     (case loadFromFile y (config_path argv) Config_init of (loaded, config) \<Rightarrow>
        if \<not> loaded \<and> \<not> cfg_valid config then Inl 1
        else
          let level = set_level (cfg_log_level config);
              cache = configure_cache h config (qc_init h redis) in
          case ProxyServer_new binds (cfg_listen_address config) (cfg_listen_port config)
                 (cfg_db_host config) (cfg_db_port config) of
            Inl e \<Rightarrow> Inl 1
          | Inr server \<Rightarrow>
              Inr \<lparr>proc_level = level, proc_threads = cfg_num_threads config, proc_server = server, proc_cache = cache,
                   globals_set = True, work_guard = True, io_stopped = False\<rparr>)"

definition signal_handler :: "'r process \<Rightarrow> 'r process" where
  "signal_handler p =
     (if globals_set p
      then p\<lparr>proc_server := shutdown (proc_server p), work_guard := False, io_stopped := True\<rparr>
      else p)"

definition main_exit :: "'r process \<Rightarrow> int \<times> 'r process" where
  "main_exit p = (0, p\<lparr>proc_server := shutdown (proc_server p), globals_set := False\<rparr>)"

subsection \<open>The cache after the start\<close>

lemma configure_cache_safe:
  assumes "cfg_l1_enabled config \<Longrightarrow> 0 < cfg_l1_max_size config"
  shows "qc_safe h (configure_cache h config (qc_init h redis))"
    and "qc_waiting (configure_cache h config (qc_init h redis)) = Map.empty"
proof -
  let ?l1 = "setL1Enabled (cfg_l1_enabled config) (setL1MaxSize (cfg_l1_max_size config) l1_init)"
  have "l1_inv ?l1" by (intro inv_intros)
  moreover have "l1_enabled ?l1 = cfg_l1_enabled config" "l1_max_size ?l1 = cfg_l1_max_size config"
    by (simp_all add: setL1Enabled_def setL1MaxSize_def clear_l1_def Let_def)
  ultimately have "l1_safe ?l1" using assms by (metis l1_safe_def)
  moreover have "l2_inv h (setRedisConfig h a b c (l2_init h redis))" "l2_inv h (l2_init h redis)" for a b c
    by (intro inv_intros)+
  ultimately show "qc_safe h (configure_cache h config (qc_init h redis))"
    by (simp add: configure_cache_def Let_def qc_safe_def qc_inv_def qc_init_def l1_safe_def sf_inv_init)
  show "qc_waiting (configure_cache h config (qc_init h redis)) = Map.empty"
    by (simp add: configure_cache_def Let_def qc_waiting_def qc_init_def)
qed

lemma main_init_start:
  assumes "main_init y h binds redis argv = Inr p" and "loadFromFile y (config_path argv) Config_init = (loaded, config)"
    and "cfg_l1_enabled config \<Longrightarrow> 0 < cfg_l1_max_size config"
  shows "program_start h (proc_server p, proc_cache p, \<lparr>sessions = Map.empty, pending = []\<rparr>)"
  using assms(1,2) configure_cache_safe[OF assms(3), of h redis]
  by (auto simp: main_init_def Let_def ProxyServer_new_def do_accept_def program_start_def proxy_start_def
      split: sum.splits if_splits)

subsection \<open>Properties\<close>



text \<open>A signal while the program runs stops accepting, releases the work guard and stops the event loop, and a
  second signal changes nothing; before the pointers are set and after \<^verbatim>\<open>main\<close> has reset them a signal has no
  effect, so the handler never touches a destroyed server.\<close>

theorem signal_handler_effect:
  "(globals_set p \<longrightarrow> \<not> accepting (proc_server (signal_handler p)) \<and> \<not> acceptor_open (proc_server (signal_handler p)) \<and>
      \<not> work_guard (signal_handler p) \<and> io_stopped (signal_handler p)) \<and>
   signal_handler (signal_handler p) = signal_handler p \<and>
   (\<not> globals_set p \<longrightarrow> signal_handler p = p) \<and>
   signal_handler (snd (main_exit p)) = snd (main_exit p) \<and> fst (main_exit p) = 0 \<and>
   \<not> accepting (proc_server (snd (main_exit p)))"
  by (simp add: signal_handler_def main_exit_def shutdown_def)

theorem signal_handler_effect_witness:
  "io_stopped (signal_handler \<lparr>proc_level = Info, proc_threads = 4, proc_server = server_5000,
     proc_cache = (qc_init no_redis () :: (flight_callback, unit) QueryCache), globals_set = True, work_guard = True,
     io_stopped = False\<rparr>)"
  using signal_handler_effect[of "\<lparr>proc_level = Info, proc_threads = 4, proc_server = server_5000,
     proc_cache = (qc_init no_redis () :: (flight_callback, unit) QueryCache), globals_set = True, work_guard = True,
     io_stopped = False\<rparr>"] by simp

end
