(* ===== verification/Proxy_Flow.thy ===== *)
theory Proxy_Flow
  imports Proxy_System
begin

section \<open>Queries from client to server and back\<close>

text \<open>
  What the proxy does with the bytes: traffic that is no simple query passes through unchanged, a
  burst of identical queries reaches the database once and every client gets the
  leader's response, and a repeated query is answered from the cache. It also shows what happens to
  waiters whose leader goes away.
\<close>

subsection \<open>Sessions that relay\<close>

text \<open>A session in the bridge, with both connections up.\<close>

definition live :: "session \<Rightarrow> bool" where
  "live s \<longleftrightarrow> bridged s \<and> buffers_ok s \<and> \<not> is_destroying s \<and> \<not> client_closed s \<and> \<not> server_closed s \<and>
     (plain s \<longrightarrow> open_at ServerTcp s)"

definition client_end :: "session \<Rightarrow> endpoint" where
  "client_end s = (if ssl_enabled s then ClientSsl else ClientTcp)"

definition server_end :: "session \<Rightarrow> endpoint" where
  "server_end s = (if ssl_enabled s then ServerSsl else ServerTcp)"

lemma wire_fields [simp]:
  "plain (s\<lparr>client_buffer := b\<rparr>) = plain s" "plain (s\<lparr>server_buffer := b\<rparr>) = plain s"
  "bridged (s\<lparr>client_buffer := b\<rparr>) = bridged s" "bridged (s\<lparr>server_buffer := b\<rparr>) = bridged s"
  "open_at ServerTcp (s\<lparr>client_buffer := b\<rparr>) = open_at ServerTcp s"
  "open_at ServerTcp (s\<lparr>server_buffer := b\<rparr>) = open_at ServerTcp s"
  by (simp_all add: bridged_def plain_def tls_def open_at_def)

lemma buffers_ok_fill:
  assumes "length data \<le> BUFSIZE" and "buffers_ok s"
  shows "buffers_ok (s\<lparr>client_buffer := fill data (client_buffer s)\<rparr>)"
    and "buffers_ok (s\<lparr>server_buffer := fill data (server_buffer s)\<rparr>)"
  using assms by (simp_all add: buffers_ok_def)

lemma live_fields [simp]:
  "live (s\<lparr>current_query := q\<rparr>) = live s" "live (s\<lparr>cached_response := r\<rparr>) = live s"
  "client_end (s\<lparr>current_query := q\<rparr>) = client_end s" "client_end (s\<lparr>cached_response := r\<rparr>) = client_end s"
  "client_end (s\<lparr>client_buffer := b\<rparr>) = client_end s" "client_end (s\<lparr>server_buffer := b\<rparr>) = client_end s"
  "server_end (s\<lparr>current_query := q\<rparr>) = server_end s" "server_end (s\<lparr>cached_response := r\<rparr>) = server_end s"
  "server_end (s\<lparr>client_buffer := b\<rparr>) = server_end s" "server_end (s\<lparr>server_buffer := b\<rparr>) = server_end s"
  by (simp_all add: live_def bridged_def plain_def tls_def buffers_ok_def open_at_def client_end_def server_end_def)

lemma live_fill [simp]:
  "length data \<le> BUFSIZE \<Longrightarrow> live s \<Longrightarrow> live (s\<lparr>client_buffer := fill data (client_buffer s)\<rparr>)"
  "length data \<le> BUFSIZE \<Longrightarrow> live s \<Longrightarrow> live (s\<lparr>server_buffer := fill data (server_buffer s)\<rparr>)"
  by (simp_all add: live_def buffers_ok_fill)

lemma live_methods:
  assumes "live s"
  shows "forward_to_server len s = (s, [AsyncWrite (server_end s) (take len (client_buffer s)) OnForwarded])"
    and "forward_to_client len s = (s, [AsyncWrite (client_end s) (take len (server_buffer s)) OnToClient])"
    and "on_query_result r s = (s\<lparr>cached_response := r\<rparr>, [AsyncWrite (client_end s) r OnResponseSent])"
  using assms
  by (auto simp: live_def bridged_def plain_def tls_def forward_to_server_def forward_to_client_def on_query_result_def
      unless_destroying_def start_op_def isServerSslEnabled_def getServerSocket_def client_end_def server_end_def
      open_at_def Let_def)

subsection \<open>Reads from a client\<close>

lemma filled_query:
  assumes "is_sql_query msg (length msg)"
  shows "is_sql_query (fill msg b) (length msg)"
    and "extract_sql_query (fill msg b) (length msg) = extract_sql_query msg (length msg)"
  using assms by (auto simp: is_sql_query_def fill_def nth_append extract_sql_query_eq)

text \<open>The read handler after a successful read, with the buffer already filled.\<close>

lemma complete_client_read:
  assumes "sessions w sid = Some s" and "e = ClientTcp \<or> e = ClientSsl"
  shows "complete md5 h sid (AsyncReadSome e OnClientRead) success data (qc, w) =
    on_client_read md5 h sid success (length data)
      (qc, w\<lparr>sessions := (sessions w)(sid \<mapsto> s\<lparr>client_buffer := fill data (client_buffer s)\<rparr>)\<rparr>)"
  using assms by (simp add: complete_def Let_def)

lemma complete_server_read:
  assumes "sessions w sid = Some s" and "e = ServerTcp \<or> e = ServerSsl"
  shows "complete md5 h sid (AsyncReadSome e OnServerRead) success data (qc, w) =
    on_server_read md5 h sid success (length data)
      (qc, w\<lparr>sessions := (sessions w)(sid \<mapsto> s\<lparr>server_buffer := fill data (server_buffer s)\<rparr>)\<rparr>)"
  using assms by (auto simp: complete_def Let_def)

text \<open>Property C11: traffic that is no simple query is relayed byte for byte, in both directions, and
  does not touch the cache.\<close>

theorem other_traffic_transparent:
  assumes "sessions w sid = Some s" and "live s" and "length data \<le> BUFSIZE" and "data \<noteq> []"
    and "ce = ClientTcp \<or> ce = ClientSsl" and "se = ServerTcp \<or> se = ServerSsl"
  shows "(data ! 0 \<noteq> CHR ''Q'' \<longrightarrow>
      (\<exists>w'. complete md5 h sid (AsyncReadSome ce OnClientRead) success data (qc, w) = Some (qc, w') \<and>
        pending w' = pending w @ [(sid, AsyncWrite (server_end s) data OnForwarded)])) \<and>
    (current_query s = [] \<longrightarrow>
      (\<exists>w'. complete md5 h sid (AsyncReadSome se OnServerRead) success data (qc, w) = Some (qc, w') \<and>
        pending w' = pending w @ [(sid, AsyncWrite (client_end s) data OnToClient)]))"
proof -
  let ?c = "s\<lparr>client_buffer := fill data (client_buffer s)\<rparr>" and ?s = "s\<lparr>server_buffer := fill data (server_buffer s)\<rparr>"
  have live: "live ?c" "live ?s" using assms by simp_all
  then have nd: "\<not> is_destroying s" by (simp add: live_def)
  have q: "is_sql_query (fill data (client_buffer s)) (length data) \<longleftrightarrow> data ! 0 = CHR ''Q''"
    using assms(4) by (simp add: is_sql_query_def fill_def nth_append)
  show ?thesis
    using live nd assms q
    by (simp add: complete_client_read on_client_read_def complete_server_read on_server_read_def
        run_method_def live_methods)
qed

subsection \<open>A burst of identical queries\<close>

definition live_at :: "io \<Rightarrow> nat \<Rightarrow> bool" where
  "live_at w sid \<longleftrightarrow> (\<exists>s. sessions w sid = Some s \<and> live s)"

definition client_end_at :: "io \<Rightarrow> nat \<Rightarrow> endpoint" where
  "client_end_at w sid = client_end (the (sessions w sid))"

definition server_end_at :: "io \<Rightarrow> nat \<Rightarrow> endpoint" where
  "server_end_at w sid = server_end (the (sessions w sid))"

lemmas at_defs = live_at_def client_end_at_def server_end_at_def

text \<open>Sessions stay live and keep their endpoints.\<close>

definition keeps :: "io \<Rightarrow> io \<Rightarrow> bool" where
  "keeps w w' \<longleftrightarrow> (\<forall>x. live_at w x \<longrightarrow> live_at w' x \<and> client_end_at w' x = client_end_at w x \<and>
     server_end_at w' x = server_end_at w x)"

lemma keeps_trans: "keeps w w' \<Longrightarrow> keeps w' w'' \<Longrightarrow> keeps w w''"
  by (simp add: keeps_def)

lemma keeps_update:
  assumes "sessions w sid = Some s" and "sessions w' = (sessions w)(sid \<mapsto> t)"
    and "live s \<Longrightarrow> live t" and "client_end t = client_end s" and "server_end t = server_end s"
  shows "keeps w w'"
  using assms by (auto simp: keeps_def at_defs)

text \<open>The clients of these sessions send the same bytes, one after the other.\<close>

fun ask_all :: "(string \<Rightarrow> byte list) \<Rightarrow> 'r hiredis \<Rightarrow> string \<Rightarrow> nat list \<Rightarrow> 'r proxy \<Rightarrow> 'r proxy option" where
  "ask_all md5 h msg [] p = Some p"
| "ask_all md5 h msg (sid # sids) p = do {
     p' \<leftarrow> complete md5 h sid (AsyncReadSome (client_end_at (snd p) sid) OnClientRead) success msg p;
     ask_all md5 h msg sids p'
   }"

definition uncached :: "(string \<Rightarrow> byte list) \<Rightarrow> 'r hiredis \<Rightarrow> string \<Rightarrow> ('cb, 'r) QueryCache \<Rightarrow> bool" where
  "uncached md5 h q qc \<longleftrightarrow>
     qc_inv h qc \<and> \<not> redis_enabled (qc_l2 qc) \<and> qc_cached qc (hash_query md5 q) = None"

definition asks :: "string \<Rightarrow> string \<Rightarrow> bool" where
  "asks msg q \<longleftrightarrow> is_sql_query msg (length msg) \<and> extract_sql_query msg (length msg) = q \<and> length msg \<le> BUFSIZE"

abbreviation received :: "string \<Rightarrow> session \<Rightarrow> session" where
  "received msg s \<equiv> s\<lparr>client_buffer := fill msg (client_buffer s)\<rparr>"

lemma client_end_client: "client_end s = ClientTcp \<or> client_end s = ClientSsl"
  and server_end_server: "server_end s = ServerTcp \<or> server_end s = ServerSsl"
  by (simp_all add: client_end_def server_end_def)

lemma ask_joins:
  assumes unc: "uncached md5 h q qc" and s: "sessions w sid = Some s" "live s" and msg: "asks msg q"
    and join: "doSingleFlight run_callback (hash_query md5 q) (sid, q)
        (qc_flight qc, w\<lparr>sessions := (sessions w)(sid \<mapsto> received msg s)\<rparr>) =
      (Inr role, sf, w\<lparr>sessions := (sessions w)(sid \<mapsto> received msg s)\<rparr>)" and sf: "sf_inv sf"
  shows "\<exists>qc'. complete md5 h sid (AsyncReadSome (client_end s) OnClientRead) success msg (qc, w) =
      Some (qc', if role = IS_WAITER then w\<lparr>sessions := (sessions w)(sid \<mapsto> received msg s)\<rparr>
        else w\<lparr>sessions := (sessions w)(sid \<mapsto> (received msg s)\<lparr>current_query := q\<rparr>),
               pending := pending w @ [(sid, AsyncWrite (server_end s) msg OnForwarded)]\<rparr>) \<and>
    uncached md5 h q qc' \<and> qc_l1 qc' = qc_l1 qc \<and> qc_flight qc' = sf"
proof -
  let ?w = "w\<lparr>sessions := (sessions w)(sid \<mapsto> received msg s)\<rparr>"
  let ?qc = "(updateStats False False qc)\<lparr>qc_flight := sf\<rparr>"
  from msg have q: "is_sql_query (fill msg (client_buffer s)) (length msg)"
    "extract_sql_query (fill msg (client_buffer s)) (length msg) = q" "length msg \<le> BUFSIZE"
    using filled_query[of msg "client_buffer s"] by (auto simp: asks_def)
  have nd: "\<not> is_destroying s" using s(2) by (simp add: live_def)
  have do: "qc_doSingleFlight md5 h run_callback q (sid, q) (qc, ?w) = Some (Inr (role_result role), ?qc, ?w)"
    by (rule qc_doSingleFlight_miss) (use unc join in \<open>auto simp: uncached_def\<close>)
  have unc': "uncached md5 h q ?qc" using unc sf by (simp add: uncached_def qc_inv_def)
  have fwd: "forward_to_server (length msg) ((received msg s)\<lparr>current_query := q\<rparr>) =
      ((received msg s)\<lparr>current_query := q\<rparr>, [AsyncWrite (server_end s) msg OnForwarded])"
    using s(2) q(3) by (simp add: live_methods)
  show ?thesis
    using s nd q do unc' fwd
    by (cases role) (simp_all add: complete_client_read[OF s(1) client_end_client] on_client_read_def Let_def
        run_method_def)
qed

lemma ask_leader:
  assumes "uncached md5 h q qc" and "sf_waiting (qc_flight qc) (hash_query md5 q) = None"
    and "sessions w sid = Some s" "live s" and "asks msg q"
  shows "\<exists>qc'. complete md5 h sid (AsyncReadSome (client_end s) OnClientRead) success msg (qc, w) =
      Some (qc', w\<lparr>sessions := (sessions w)(sid \<mapsto> (received msg s)\<lparr>current_query := q\<rparr>),
               pending := pending w @ [(sid, AsyncWrite (server_end s) msg OnForwarded)]\<rparr>) \<and>
    uncached md5 h q qc' \<and> qc_l1 qc' = qc_l1 qc \<and> sf_waiting (qc_flight qc') (hash_query md5 q) = Some []"
proof -
  have "sf_inv (qc_flight qc)" using assms(1) by (simp add: uncached_def qc_inv_def)
  from sf.join_leader[OF this assms(2), of run_callback "(sid, q)" "w\<lparr>sessions := (sessions w)(sid \<mapsto> received msg s)\<rparr>"]
    ask_joins[OF assms(1,3,4,5), of IS_LEADER] show ?thesis by fastforce
qed

lemma ask_waiter:
  assumes "uncached md5 h q qc" and "sf_waiting (qc_flight qc) (hash_query md5 q) = Some cbs"
    and "sessions w sid = Some s" "live s" and "asks msg q"
  shows "\<exists>qc'. complete md5 h sid (AsyncReadSome (client_end s) OnClientRead) success msg (qc, w) =
      Some (qc', w\<lparr>sessions := (sessions w)(sid \<mapsto> received msg s)\<rparr>) \<and>
    uncached md5 h q qc' \<and> qc_l1 qc' = qc_l1 qc \<and> sf_waiting (qc_flight qc') (hash_query md5 q) = Some (cbs @ [(sid, q)])"
proof -
  have "sf_inv (qc_flight qc)" using assms(1) by (simp add: uncached_def qc_inv_def)
  from sf.join_waiter[OF this assms(2), of run_callback "(sid, q)" "w\<lparr>sessions := (sessions w)(sid \<mapsto> received msg s)\<rparr>"]
    ask_joins[OF assms(1,3,4,5), of IS_WAITER] show ?thesis by fastforce
qed

lemma ask_waiters:
  assumes "uncached md5 h q qc" and "sf_waiting (qc_flight qc) (hash_query md5 q) = Some cbs"
    and "\<forall>x \<in> set ws. live_at w x" and msg: "asks msg q"
  shows "\<exists>qc' w'. ask_all md5 h msg ws (qc, w) = Some (qc', w') \<and> pending w' = pending w \<and> keeps w w' \<and>
    (\<forall>x. x \<notin> set ws \<longrightarrow> sessions w' x = sessions w x) \<and> uncached md5 h q qc' \<and> qc_l1 qc' = qc_l1 qc \<and>
    sf_waiting (qc_flight qc') (hash_query md5 q) = Some (cbs @ map (\<lambda>x. (x, q)) ws)"
  using assms(1-3)
proof (induction ws arbitrary: qc w cbs)
  case Nil
  then show ?case by (simp add: keeps_def)
next
  case (Cons x ws)
  from Cons.prems(3) obtain s where s: "sessions w x = Some s" "live s" by (auto simp: live_at_def)
  let ?w = "w\<lparr>sessions := (sessions w)(x \<mapsto> received msg s)\<rparr>"
  from ask_waiter[OF Cons.prems(1,2) s msg] obtain qc1 where
    c: "complete md5 h x (AsyncReadSome (client_end s) OnClientRead) success msg (qc, w) = Some (qc1, ?w)"
      "uncached md5 h q qc1" "qc_l1 qc1 = qc_l1 qc"
      "sf_waiting (qc_flight qc1) (hash_query md5 q) = Some (cbs @ [(x, q)])" by blast
  have k: "keeps w ?w" by (rule keeps_update[OF s(1), where t = "received msg s"]) (use msg in \<open>simp_all add: asks_def\<close>)
  with Cons.prems(3) have "\<forall>y \<in> set ws. live_at ?w y" by (simp add: keeps_def)
  from Cons.IH[OF c(2,4) this] obtain qc' w' where
    i: "ask_all md5 h msg ws (qc1, ?w) = Some (qc', w')" "pending w' = pending ?w" "keeps ?w w'"
      "\<forall>y. y \<notin> set ws \<longrightarrow> sessions w' y = sessions ?w y" "uncached md5 h q qc'" "qc_l1 qc' = qc_l1 qc1"
      "sf_waiting (qc_flight qc') (hash_query md5 q) = Some ((cbs @ [(x, q)]) @ map (\<lambda>x. (x, q)) ws)" by blast
  have "ask_all md5 h msg (x # ws) (qc, w) = Some (qc', w')"
    using i(1) c(1) s(1) by (simp add: client_end_at_def)
  with i c(3) keeps_trans[OF k i(3)] show ?case by auto
qed

lemma run_callbacks_live:
  fixes q r :: string
  assumes "\<forall>x \<in> set ws. live_at w x"
  defines "w' \<equiv> run_callbacks run_callback (map (\<lambda>x. (x, q)) ws) r w"
  shows "pending w' = pending w @ map (\<lambda>x. (x, AsyncWrite (client_end_at w x) r OnResponseSent)) ws \<and>
    keeps w w' \<and> (\<forall>x. x \<notin> set ws \<longrightarrow> sessions w' x = sessions w x)"
  using assms(1) unfolding w'_def
proof (induction ws arbitrary: w)
  case Nil
  then show ?case by (simp add: keeps_def)
next
  case (Cons x ws)
  from Cons.prems obtain s where s: "sessions w x = Some s" "live s" by (auto simp: live_at_def)
  let ?w = "run_method x (on_query_result r) w"
  have w: "?w = w\<lparr>sessions := (sessions w)(x \<mapsto> s\<lparr>cached_response := r\<rparr>),
      pending := pending w @ [(x, AsyncWrite (client_end s) r OnResponseSent)]\<rparr>"
    using s by (simp add: run_method_def live_methods)
  have k: "keeps w ?w" unfolding w by (rule keeps_update[OF s(1), where t = "s\<lparr>cached_response := r\<rparr>"]) simp_all
  with Cons.prems have l: "\<forall>y \<in> set ws. live_at ?w y" by (simp add: keeps_def)
  have e: "map (\<lambda>y. (y, AsyncWrite (client_end_at ?w y) r OnResponseSent)) ws =
      map (\<lambda>y. (y, AsyncWrite (client_end_at w y) r OnResponseSent)) ws"
    using k Cons.prems by (simp add: keeps_def)
  have "run_callbacks run_callback (map (\<lambda>x. (x, q)) (x # ws)) r w =
      run_callbacks run_callback (map (\<lambda>x. (x, q)) ws) r ?w" by (simp add: run_callbacks_fold)
  with Cons.IH[OF l] e keeps_trans[OF k] s(1) show ?case
    by (auto simp: w client_end_at_def)
qed

lemma ask_hit:
  assumes inv: "qc_inv h qc" and c: "qc_cached qc (hash_query md5 q) = Some v"
    and s: "sessions w sid = Some s" "live s" and msg: "asks msg q"
  shows "\<exists>qc' w'. complete md5 h sid (AsyncReadSome (client_end s) OnClientRead) success msg (qc, w) = Some (qc', w') \<and>
    pending w' = pending w @ [(sid, AsyncWrite (client_end s) v OnResponseSent)] \<and> qc_flight qc' = qc_flight qc"
proof -
  let ?w = "w\<lparr>sessions := (sessions w)(sid \<mapsto> received msg s)\<rparr>"
  from msg have q: "is_sql_query (fill msg (client_buffer s)) (length msg)"
    "extract_sql_query (fill msg (client_buffer s)) (length msg) = q" "length msg \<le> BUFSIZE"
    using filled_query[of msg "client_buffer s"] by (auto simp: asks_def)
  have nd: "\<not> is_destroying s" using s(2) by (simp add: live_def)
  from qc_get_hit[OF inv c] obtain c1 where
    "qc_get md5 h q qc = Some (Some v, updateStats True False (qc\<lparr>qc_l1 := c1\<rparr>))" by blast
  then have do: "qc_doSingleFlight md5 h run_callback q (sid, q) (qc, ?w) = Some (Inr CACHE_HIT,
      updateStats True False (qc\<lparr>qc_l1 := c1\<rparr>), run_method sid (on_query_result v) ?w)"
    by (simp add: qc_doSingleFlight_def run_callback_def)
  have "on_query_result v (received msg s) =
      ((received msg s)\<lparr>cached_response := v\<rparr>, [AsyncWrite (client_end s) v OnResponseSent])"
    using s(2) q(3) by (simp add: live_methods)
  with s nd q do show ?thesis
    by (simp add: complete_client_read[OF s(1) client_end_client] on_client_read_def Let_def run_method_def)
qed

lemma leader_replies:
  assumes inv: "qc_inv h qc" and act: "l1_active (qc_l1 qc)"
    and wait: "sf_waiting (qc_flight qc) (hash_query md5 q) = Some (map (\<lambda>x. (x, q)) ws)"
    and s: "sessions w leader = Some s" "live s" "current_query s = q" and q: "q \<noteq> []"
    and reply: "length reply \<le> BUFSIZE" and d: "leader \<notin> set ws" and live: "\<forall>x \<in> set ws. live_at w x"
  shows "\<exists>qc2 w2. complete md5 h leader (AsyncReadSome (server_end s) OnServerRead) success reply (qc, w) = Some (qc2, w2) \<and>
    pending w2 = pending w @ map (\<lambda>x. (x, AsyncWrite (client_end_at w x) reply OnResponseSent)) ws @
      [(leader, AsyncWrite (client_end s) reply OnToClient)] \<and>
    keeps w w2 \<and> qc_inv h qc2 \<and> qc_cached qc2 (hash_query md5 q) = Some reply \<and>
    sf_waiting (qc_flight qc2) (hash_query md5 q) = None"
proof -
  let ?k = "hash_query md5 q" and ?cbs = "map (\<lambda>x. (x, q)) ws"
  let ?t = "s\<lparr>server_buffer := fill reply (server_buffer s)\<rparr>"
  let ?u = "?t\<lparr>current_query := []\<rparr>"
  have lt: "live ?t" "live ?u" using live_fill(2)[OF reply s(2)] live_fields(1)[where s = ?t and q = "[]"] by simp_all
  define w1 where "w1 = w\<lparr>sessions := (sessions w)(leader \<mapsto> ?t)\<rparr>"
  have k1: "keeps w w1" by (rule keeps_update[OF s(1), where t = ?t]) (use lt in \<open>simp_all add: w1_def\<close>)
  with live have lw: "\<forall>x \<in> set ws. live_at w1 x" by (simp add: keeps_def)
  let ?v = "run_callbacks run_callback ?cbs reply w1"
  from run_callbacks_live[OF lw, of q reply] have
    v: "pending ?v = pending w1 @ map (\<lambda>x. (x, AsyncWrite (client_end_at w1 x) reply OnResponseSent)) ws"
      "keeps w1 ?v" "sessions ?v leader = Some ?t" using d by (auto simp: w1_def)
  obtain qcp where p: "qc_put md5 h q reply qc = Some qcp" "qc_cached qcp ?k = Some reply"
    "qc_flight qcp = qc_flight qc" using qc_put_cached[OF act, of md5 h q reply] by blast
  have sfi: "sf_inv (qc_flight qcp)" using inv p(3) by (simp add: qc_inv_def)
  from sf.notify_flight[OF sfi, of ?k ?cbs run_callback reply w1] wait p(3) obtain sf' where
    n: "notifyResult run_callback ?k reply (qc_flight qcp, w1) = (sf', ?v)" "sf_waiting sf' ?k = None" by auto
  let ?qc2 = "qcp\<lparr>qc_flight := sf'\<rparr>"
  have nf: "notifyFlightResult md5 h run_callback q reply (qc, w1) = Some (?qc2, ?v)"
    by (simp add: notifyFlightResult_def p(1) n(1))
  define w2 where "w2 = ?v\<lparr>sessions := (sessions ?v)(leader \<mapsto> ?u),
      pending := pending ?v @ [(leader, AsyncWrite (client_end s) reply OnToClient)]\<rparr>"
  have "forward_to_client (length reply) ?u = (?u, [AsyncWrite (client_end s) reply OnToClient])"
    using live_methods(2)[OF lt(2), of "length reply"] by simp
  moreover have "sessions w1 leader = Some ?t" "\<not> is_destroying s" using s(2) by (simp_all add: w1_def live_def)
  ultimately have "on_server_read md5 h leader success (length reply) (qc, w1) = Some (?qc2, w2)"
    using q nf v(3) s(3) by (simp add: on_server_read_def Let_def run_method_def) (simp add: w2_def)
  then have "complete md5 h leader (AsyncReadSome (server_end s) OnServerRead) success reply (qc, w) = Some (?qc2, w2)"
    by (simp add: complete_server_read[OF s(1) server_end_server[of s]] w1_def)
  moreover have "keeps ?v w2"
    by (rule keeps_update[OF v(3), where t = ?u]) (use lt in \<open>simp_all add: w2_def\<close>)
  then have "keeps w w2" using k1 v(2) by (blast intro: keeps_trans)
  moreover have "pending w2 = pending w @ map (\<lambda>x. (x, AsyncWrite (client_end_at w x) reply OnResponseSent)) ws @
      [(leader, AsyncWrite (client_end s) reply OnToClient)]"
    using v(1) live k1 by (simp add: w2_def w1_def keeps_def)
  moreover have "qc_inv h ?qc2" by (rule notifyFlightResult_inv[OF inv nf])
  moreover have "qc_cached ?qc2 ?k = Some reply" using p(2) by simp
  ultimately show ?thesis using n(2) by auto
qed

text \<open>Property C1: a query end to end, with L2 off. The clients of distinct sessions send the same query,
  not cached and not in flight: one message goes to the database, the first session's,
  byte for byte. When the database's response arrives there, its bytes are written to
  every waiting client in order of arrival and to the first one, and are cached; a
  client that then sends the same query gets them from the cache, and nothing more goes to the
  database.\<close>

theorem proxy_query_flow:
  assumes unc: "uncached md5 h q qc" and act: "l1_active (qc_l1 qc)"
    and idle: "sf_waiting (qc_flight qc) (hash_query md5 q) = None"
    and msg: "asks msg q" and q: "q \<noteq> []" and reply: "length reply \<le> BUFSIZE"
    and d: "leader \<notin> set ws" and live: "\<forall>x \<in> set (leader # y # ws). live_at w x"
  shows "\<exists>p qc2 w2 qc3 w3. ask_all md5 h msg (leader # ws) (qc, w) = Some p \<and>
    complete md5 h leader (AsyncReadSome (server_end_at w leader) OnServerRead) success reply p = Some (qc2, w2) \<and>
    pending w2 = pending w @ [(leader, AsyncWrite (server_end_at w leader) msg OnForwarded)] @
      map (\<lambda>x. (x, AsyncWrite (client_end_at w x) reply OnResponseSent)) ws @
      [(leader, AsyncWrite (client_end_at w leader) reply OnToClient)] \<and>
    qc_cached qc2 (hash_query md5 q) = Some reply \<and> sf_waiting (qc_flight qc2) (hash_query md5 q) = None \<and>
    ask_all md5 h msg [y] (qc2, w2) = Some (qc3, w3) \<and>
    pending w3 = pending w2 @ [(y, AsyncWrite (client_end_at w y) reply OnResponseSent)]"
proof -
  let ?k = "hash_query md5 q"
  from live obtain s where s: "sessions w leader = Some s" "live s" by (auto simp: live_at_def)
  let ?s = "(received msg s)\<lparr>current_query := q\<rparr>"
  have ls: "live ?s" using s msg by (simp add: asks_def)
  define w1 where "w1 = w\<lparr>sessions := (sessions w)(leader \<mapsto> ?s),
      pending := pending w @ [(leader, AsyncWrite (server_end s) msg OnForwarded)]\<rparr>"
  from ask_leader[OF unc idle s msg] obtain qc1 where
    c: "complete md5 h leader (AsyncReadSome (client_end s) OnClientRead) success msg (qc, w) = Some (qc1, w1)"
      "uncached md5 h q qc1" "qc_l1 qc1 = qc_l1 qc" "sf_waiting (qc_flight qc1) ?k = Some []"
    unfolding w1_def by blast
  have k1: "keeps w w1" by (rule keeps_update[OF s(1), where t = ?s]) (use ls in \<open>simp_all add: w1_def\<close>)
  with live have "\<forall>x \<in> set ws. live_at w1 x" by (simp add: keeps_def)
  from ask_waiters[OF c(2,4) this msg] obtain qc' w' where
    a: "ask_all md5 h msg ws (qc1, w1) = Some (qc', w')" "pending w' = pending w1" "keeps w1 w'"
      "\<forall>x. x \<notin> set ws \<longrightarrow> sessions w' x = sessions w1 x" "uncached md5 h q qc'" "qc_l1 qc' = qc_l1 qc1"
      "sf_waiting (qc_flight qc') ?k = Some (map (\<lambda>x. (x, q)) ws)" by auto
  have all: "ask_all md5 h msg (leader # ws) (qc, w) = Some (qc', w')"
    using a(1) c(1) s(1) by (simp add: client_end_at_def)
  have k2: "keeps w w'" by (rule keeps_trans[OF k1 a(3)])
  have "qc_inv h qc'" "l1_active (qc_l1 qc')" "sessions w' leader = Some ?s" "\<forall>x \<in> set ws. live_at w' x"
    using a d act c(3) k2 live by (simp_all add: uncached_def w1_def keeps_def)
  from leader_replies[OF this(1,2) a(7) this(3) ls _ q reply d this(4)] obtain qc2 w2 where
    r: "complete md5 h leader (AsyncReadSome (server_end s) OnServerRead) success reply (qc', w') = Some (qc2, w2)"
      "pending w2 = pending w' @ map (\<lambda>x. (x, AsyncWrite (client_end_at w' x) reply OnResponseSent)) ws @
         [(leader, AsyncWrite (client_end s) reply OnToClient)]"
      "keeps w' w2" "qc_inv h qc2" "qc_cached qc2 ?k = Some reply" "sf_waiting (qc_flight qc2) ?k = None" by auto
  from keeps_trans[OF k2 r(3)] live obtain sy where
    sy: "sessions w2 y = Some sy" "live sy" "client_end sy = client_end_at w y" by (auto simp: keeps_def at_defs)
  from ask_hit[OF r(4,5) sy(1,2) msg] sy obtain qc3 w3 where
    "ask_all md5 h msg [y] (qc2, w2) = Some (qc3, w3)"
    "pending w3 = pending w2 @ [(y, AsyncWrite (client_end_at w y) reply OnResponseSent)]"
    by (auto simp: client_end_at_def)
  moreover have "pending w2 = pending w @ [(leader, AsyncWrite (server_end s) msg OnForwarded)] @
      map (\<lambda>x. (x, AsyncWrite (client_end_at w x) reply OnResponseSent)) ws @
      [(leader, AsyncWrite (client_end s) reply OnToClient)]"
    using r(2) a(2) live k2 by (simp add: w1_def keeps_def)
  ultimately show ?thesis
    using all r s(1) by (auto simp: client_end_at_def server_end_at_def simp del: ask_all.simps)
qed

text \<open>Property C18: once a session is closing, none of its handlers does anything: whatever operation completes,
  with whatever outcome, no operation is started and the cache is left alone; a result
  that arrives for it is dropped.\<close>

theorem closed_session_silent:
  assumes "sessions w sid = Some s" and "is_destroying s"
  shows "complete md5 h sid op ec data (qc, w) =
      Some (qc, w\<lparr>sessions := (sessions w)(sid \<mapsto> deliver op ec data s)\<rparr>) \<and>
    run_callback (sid, q) r w = (Inr (), w)"
proof -
  let ?s = "deliver op ec data s"
  have d: "is_destroying ?s" using assms(2) by (cases op) auto
  have "on_complete hnd ec len reply ?s = Some (?s, [])" if "hnd \<noteq> OnClientRead" "hnd \<noteq> OnServerRead" for hnd len reply
    using that d by (cases hnd) (simp_all add: session_handler_defs unless_destroying_def skip_def)
  then have "complete md5 h sid op ec data (qc, w) = Some (qc, w\<lparr>sessions := (sessions w)(sid \<mapsto> ?s)\<rparr>)"
    using assms d by (simp add: complete_def Let_def on_client_read_def on_server_read_def)
  moreover have "(sessions w)(sid \<mapsto> s) = sessions w" using assms(1) by (rule map_upd_triv)
  then have "run_callback (sid, q) r w = (Inr (), w)"
    using assms by (simp add: run_callback_def run_method_def on_query_result_def unless_destroying_def skip_def)
  ultimately show ?thesis by blast
qed

subsection \<open>Witnesses\<close>

text \<open>Three sessions in plain bridge mode.\<close>

definition bridge_session :: session where
  "bridge_session = (new_session tls_ok ''db'' 5432)\<lparr>server_socket := Some \<lparr>is_open = True\<rparr>\<rparr>"

definition three_sessions :: io where
  "three_sessions = \<lparr>sessions = (\<lambda>x. if x < 3 then Some bridge_session else None), pending = []\<rparr>"

lemma bridge_session_live: "live bridge_session" "client_end bridge_session = ClientTcp"
    "server_end bridge_session = ServerTcp" "current_query bridge_session = []"
  by (simp_all add: bridge_session_def new_session_def live_def bridged_def plain_def buffers_ok_def open_at_def
      client_end_def server_end_def)

lemma three_sessions_at [simp]:
  "x < 3 \<Longrightarrow> live_at three_sessions x" "x < 3 \<Longrightarrow> client_end_at three_sessions x = ClientTcp"
  "x < 3 \<Longrightarrow> server_end_at three_sessions x = ServerTcp"
  by (simp_all add: three_sessions_def at_defs bridge_session_live)

lemma uncached_init: "uncached md5 no_redis q (qc_init no_redis ())"
  "l1_active (qc_l1 (qc_init no_redis () :: ('cb, unit) QueryCache))"
  "sf_waiting (qc_flight (qc_init no_redis () :: ('cb, unit) QueryCache)) k = None"
proof -
  show "uncached md5 no_redis q (qc_init no_redis ())"
    unfolding uncached_def
    by (intro conjI qc_inv_init)
       (simp_all add: qc_init_def l2_init_disabled qc_cached_def l1_lookup_def l1_init_def l1_abs_def)
  show "l1_active (qc_l1 (qc_init no_redis () :: ('cb, unit) QueryCache))"
    using l1_active_init by (simp add: qc_init_def)
qed (simp add: qc_init_def)

lemma query_message_asks:
  assumes "NUL \<notin> set sql" and "length sql + 6 \<le> BUFSIZE"
  shows "asks (query_message sql) sql"
  using extract_query_message[OF assms(1) refl, of "[]" "[]"] assms(2)
  by (simp add: asks_def) (simp add: is_sql_query_def query_message_def be32_def)

lemma select_asks: "asks (query_message ''SELECT 1'') ''SELECT 1''"
  by (rule query_message_asks) (simp_all add: BUFSIZE_def)

theorem proxy_query_flow_witness:
  "\<exists>p qc2 w2. ask_all (\<lambda>q. replicate 16 0) no_redis (query_message ''SELECT 1'') [0, 1] (qc_init no_redis (), three_sessions) = Some p \<and>
    complete (\<lambda>q. replicate 16 0) no_redis 0 (AsyncReadSome ServerTcp OnServerRead) success ''rows'' p = Some (qc2, w2) \<and>
    pending w2 = [(0, AsyncWrite ServerTcp (query_message ''SELECT 1'') OnForwarded),
      (1, AsyncWrite ClientTcp ''rows'' OnResponseSent), (0, AsyncWrite ClientTcp ''rows'' OnToClient)]"
proof -
  have p: "pending three_sessions = []" by (simp add: three_sessions_def)
  show ?thesis
    using proxy_query_flow[OF uncached_init(1) uncached_init(2,3) select_asks, where ?md5.0 = "\<lambda>q. replicate 16 0"
        and leader = 0 and ws = "[1]" and y = 2 and w = three_sessions and reply = "''rows''"]
    by (simp add: p BUFSIZE_def del: ask_all.simps) blast
qed

theorem other_traffic_transparent_witness:
  "\<exists>w'. complete (\<lambda>q. replicate 16 0) no_redis 0 (AsyncReadSome ClientTcp OnClientRead) success ''X''
      (qc_init no_redis (), three_sessions) = Some (qc_init no_redis (), w') \<and>
    pending w' = [(0, AsyncWrite ServerTcp ''X'' OnForwarded)]"
  using other_traffic_transparent[where w = three_sessions and sid = 0 and s = bridge_session and data = "''X''"
      and ce = ClientTcp and se = ServerTcp and ?md5.0 = "\<lambda>q. replicate 16 0" and h = no_redis
      and qc = "qc_init no_redis ()"]
  by (simp add: three_sessions_def bridge_session_live BUFSIZE_def)

theorem closed_session_silent_witness:
  "run_callback (0, ''SELECT 1'') ''rows'' \<lparr>sessions = [0 \<mapsto> close bridge_session], pending = []\<rparr> =
    (Inr (), \<lparr>sessions = [0 \<mapsto> close bridge_session], pending = []\<rparr>)"
  using closed_session_silent[where w = "\<lparr>sessions = [0 \<mapsto> close bridge_session], pending = []\<rparr>" and sid = 0
      and s = "close bridge_session" and q = "''SELECT 1''" and r = "''rows''", THEN conjunct2] by simp

end
