(* ===== verification/Proxy_Liveness.thy ===== *)
theory Proxy_Liveness
  imports Proxy_Flow
begin

section \<open>Waiters whose leader went away\<close>

text \<open>
  A flight ends only when the session that leads it reads from the server while its \<^verbatim>\<open>current_query_\<close>
  still names the query. Nothing else removes it: a leader that is closed, or whose query is
  empty, leaves the flight in the map, and every later query with that key joins it and
  waits. This theory proves that such a flight never ends.
\<close>

subsection \<open>Methods leave the current query alone\<close>

definition quiet :: "session \<Rightarrow> session \<Rightarrow> bool" where
  "quiet s t \<longleftrightarrow> current_query t = current_query s \<and> (is_destroying s \<longrightarrow> is_destroying t)"

lemma quiet_basic [simp]:
  "quiet s s" "quiet s (close s)" "quiet s (fst (skip s))" "quiet s (fst (closing s))" "quiet s (fst (start_op op s))"
  "quiet s (fst (on_error ec s))"
  by (simp_all add: quiet_def skip_def closing_def start_op_def on_error_def)

lemma quiet_unless: "(\<not> is_destroying s \<Longrightarrow> quiet s (fst (m s))) \<Longrightarrow> quiet s (fst (unless_destroying m s))"
  by (simp add: unless_destroying_def)

lemma quiet_trans: "quiet s t \<Longrightarrow> quiet t u \<Longrightarrow> quiet s u"
  by (simp add: quiet_def)

lemma quiet_andthen:
  assumes "\<And>s. quiet s (fst (f s))" and "\<And>s. quiet s (fst (g s))"
  shows "quiet s (fst (andthen f g s))"
  using assms(1)[of s] assms(2)[of "fst (f s)"]
  by (auto simp: andthen_def split: prod.splits intro: quiet_trans)

lemma quiet_update:
  "quiet (s\<lparr>client_buffer := b\<rparr>) t = quiet s t" "quiet (s\<lparr>server_buffer := b\<rparr>) t = quiet s t"
  "quiet (s\<lparr>startup_packet := b\<rparr>) t = quiet s t" "quiet (s\<lparr>ssl_enabled := x\<rparr>) t = quiet s t"
  "quiet (s\<lparr>client_closed := x\<rparr>) t = quiet s t" "quiet (s\<lparr>server_closed := x\<rparr>) t = quiet s t"
  "quiet (s\<lparr>cached_response := b\<rparr>) t = quiet s t" "quiet (s\<lparr>server_socket := k\<rparr>) t = quiet s t"
  "quiet (s\<lparr>client_ssl_socket := k1, server_ssl_socket := k2, client_socket := k3, server_socket := k4\<rparr>) t = quiet s t"
  by (simp_all add: quiet_def)

lemma quiet_connect: "quiet s (fst (connect_to_database c s))"
  by (auto simp: connect_to_database_def intro!: quiet_unless)

lemma quiet_reads:
  "quiet s (fst (read_client_startup s))" "quiet s (fst (read_client_startup_after_ssl s))"
  by (auto simp: read_client_startup_def read_client_startup_after_ssl_def start_op_def intro!: quiet_unless)
     (simp_all add: quiet_def)

lemma quiet_ssl:
  "quiet s (fst (check_server_ssl_support s))" "quiet s (fst (handle_ssl_request s))"
  "quiet s (fst (perform_ssl_handshake s))" "quiet s (fst (relay_to_server len s))"
  by (auto simp: check_server_ssl_support_def handle_ssl_request_def perform_ssl_handshake_def relay_to_server_def
      quiet_connect intro!: quiet_unless split: option.split)

lemma quiet_bridge:
  "quiet s (fst (bridge_client_to_server s))" "quiet s (fst (bridge_server_to_client s))"
  "quiet s (fst (forward_to_server len s))" "quiet s (fst (forward_to_client len s))"
  by (auto simp: bridge_client_to_server_def bridge_server_to_client_def forward_to_server_def forward_to_client_def
      intro!: quiet_unless)

lemma quiet_errors:
  "quiet s (fst (client_read_error ec s))" "quiet s (fst (server_read_error ec s))"
  by (auto simp: client_read_error_def server_read_error_def Let_def closing_def skip_def)
     (simp_all add: quiet_def)

lemma quiet_result: "quiet s (fst (on_query_result r s))"
  by (auto simp: on_query_result_def Let_def start_op_def skip_def intro!: quiet_unless) (simp_all add: quiet_def)

lemma quiet_callback: "quiet s (fst (run_connect_callback c ec s))"
  by (cases c) (auto simp: quiet_reads quiet_ssl intro!: quiet_unless)

lemma quiet_deliver: "quiet s (deliver op ec data s)"
  by (cases op) (auto simp: quiet_def)

lemma quiet_complete: "on_complete hnd ec len reply s = Some r \<Longrightarrow> quiet s (fst r)"
proof (cases hnd)
  case OnClientStartup
  moreover have "quiet s (fst (check_server_ssl_support (s\<lparr>startup_packet := b\<rparr>)))" for b
    using quiet_ssl(1)[of "s\<lparr>startup_packet := b\<rparr>"] by (simp add: quiet_update)
  moreover assume "on_complete hnd ec len reply s = Some r"
  ultimately show ?thesis
    by (auto simp: on_client_startup_def quiet_ssl intro!: quiet_unless)
next
  case OnServerHandshake
  moreover have "quiet s (fst (read_client_startup_after_ssl (s\<lparr>ssl_enabled := True\<rparr>)))"
    using quiet_reads(2)[of "s\<lparr>ssl_enabled := True\<rparr>"] by (simp add: quiet_update)
  moreover assume "on_complete hnd ec len reply s = Some r"
  ultimately show ?thesis by (auto simp: on_server_handshake_def intro!: quiet_unless)
next
  case OnSSent
  moreover assume "on_complete hnd ec len reply s = Some r"
  ultimately show ?thesis
    by (auto simp: on_s_sent_def start_op_def closing_def split: if_splits) (simp_all add: quiet_def)
qed (auto simp: session_handler_defs quiet_callback quiet_bridge quiet_ssl intro!: quiet_unless quiet_andthen
      split: if_splits)

subsection \<open>Nobody leads the flight\<close>

text \<open>No session that still reads has the key of \<open>k\<close> as its current query.\<close>

definition unled :: "(string \<Rightarrow> byte list) \<Rightarrow> string \<Rightarrow> io \<Rightarrow> bool" where
  "unled md5 k w \<longleftrightarrow> (\<forall>sid s. sessions w sid = Some s \<longrightarrow>
     is_destroying s \<or> current_query s = [] \<or> hash_query md5 (current_query s) \<noteq> k)"

definition abandoned :: "(string \<Rightarrow> byte list) \<Rightarrow> string \<Rightarrow> flight_callback list \<Rightarrow> 'r proxy \<Rightarrow> bool" where
  "abandoned md5 k cbs = (\<lambda>(qc, w). unled md5 k w \<and> (\<exists>more. qc_waiting qc k = Some (cbs @ more)))"

lemma unled_update:
  assumes "unled md5 k w" and "\<And>s. sessions w sid = Some s \<Longrightarrow> quiet s t"
    and "sessions w sid = None \<Longrightarrow> current_query t = []"
  shows "unled md5 k (w\<lparr>sessions := (sessions w)(sid \<mapsto> t)\<rparr>)"
  using assms by (cases "sessions w sid") (auto simp: unled_def quiet_def)

lemma unled_run_method:
  assumes "unled md5 k w" and "\<And>s. quiet s (fst (m s))"
  shows "unled md5 k (run_method sid m w)"
  using assms unfolding unled_def run_method_sessions quiet_def
  by (auto split: if_splits) (metis comp_apply)

lemma unled_run_callbacks: "unled md5 k w \<Longrightarrow> unled md5 k (run_callbacks run_callback cbs r w)"
  by (induction cbs arbitrary: w) (simp_all add: run_callbacks_fold unled_run_method quiet_result)

lemma unled_set_query:
  assumes "unled md5 k w" and "q = [] \<or> hash_query md5 q \<noteq> k" and "\<And>s. quiet s (fst (m s))"
  shows "unled md5 k (run_method sid (\<lambda>s. m (s\<lparr>current_query := q\<rparr>)) w)"
proof -
  have q: "current_query (fst (m (s\<lparr>current_query := q\<rparr>))) = q" for s
    using assms(3)[of "s\<lparr>current_query := q\<rparr>"] by (simp add: quiet_def)
  show ?thesis
    using assms(1,2) q by (auto simp: unled_def run_method_sessions split: if_splits)
qed

lemma abandoned_client_read:
  assumes ab: "abandoned md5 k cbs (qc, w)" and safe: "qc_safe h qc"
    and r: "on_client_read md5 h sid ec len (qc, w) = Some p"
  shows "abandoned md5 k cbs p"
proof -
  from ab have un: "unled md5 k w" and wt: "\<exists>more. qc_waiting qc k = Some (cbs @ more)"
    by (auto simp: abandoned_def)
  from r obtain s where s: "sessions w sid = Some s" by (auto simp: on_client_read_def split: option.splits)
  let ?q = "extract_sql_query (client_buffer s) len"
  show ?thesis
  proof (cases "\<not> is_destroying s \<and> \<not> failed ec \<and> is_sql_query (client_buffer s) len")
    case False
    with r s un wt show ?thesis
      by (auto simp: on_client_read_def abandoned_def quiet_errors quiet_bridge intro!: unled_run_method
          split: if_splits)
  next
    case True
    show ?thesis
    proof (cases rule: qc_doSingleFlight_cases[OF safe, of run_callback md5 ?q "(sid, ?q)" w,
          OF run_callback_simps(1), case_names hit leader waiter])
      case (hit v qc')
      with True r s un wt show ?thesis
        by (auto simp: on_client_read_def Let_def abandoned_def quiet_result intro!: unled_run_method)
    next
      case (leader qc')
      with wt have ne: "hash_query md5 ?q \<noteq> k" by auto
      with leader True r s wt unled_set_query[OF un, of ?q "forward_to_server len" sid] show ?thesis
        by (auto simp: on_client_read_def Let_def abandoned_def quiet_bridge)
    next
      case (waiter cbs' qc')
      with True r s un wt show ?thesis by (auto simp: on_client_read_def Let_def abandoned_def)
    qed
  qed
qed

lemma abandoned_server_read:
  assumes ab: "abandoned md5 k cbs (qc, w)" and safe: "qc_safe h qc"
    and r: "on_server_read md5 h sid ec len (qc, w) = Some p"
  shows "abandoned md5 k cbs p"
proof -
  from ab have un: "unled md5 k w" and wt: "\<exists>more. qc_waiting qc k = Some (cbs @ more)"
    by (auto simp: abandoned_def)
  from r obtain s where s: "sessions w sid = Some s" by (auto simp: on_server_read_def split: option.splits)
  show ?thesis
  proof (cases "\<not> is_destroying s \<and> \<not> failed ec \<and> current_query s \<noteq> []")
    case False
    with r s un wt show ?thesis
      by (auto simp: on_server_read_def abandoned_def quiet_errors quiet_bridge intro!: unled_run_method
          split: if_splits)
  next
    case True
    with un s have ne: "hash_query md5 (current_query s) \<noteq> k" by (auto simp: unled_def)
    from True notifyFlightResult_flight[OF safe, of md5 run_callback "current_query s" "take len (server_buffer s)" w]
      r s obtain qc' cbs' where
      p: "p = (qc', run_method sid (\<lambda>s. forward_to_client len (s\<lparr>current_query := []\<rparr>))
            (run_callbacks run_callback cbs' (take len (server_buffer s)) w))"
        "qc_waiting qc' = (qc_waiting qc)(hash_query md5 (current_query s) := None)"
      by (auto simp: on_server_read_def Let_def)
    with ne wt show ?thesis
      by (auto simp: abandoned_def quiet_bridge intro!: unled_set_query unled_run_callbacks un)
  qed
qed

lemma abandoned_complete:
  assumes ab: "abandoned md5 k cbs (qc, w)" and safe: "qc_safe h qc"
    and c: "complete md5 h sid op ec data (qc, w\<lparr>pending := ps\<rparr>) = Some p"
  shows "abandoned md5 k cbs p"
proof -
  from c obtain s where s: "sessions w sid = Some s" by (auto simp: complete_def split: option.splits)
  define w1 where "w1 = w\<lparr>pending := ps, sessions := (sessions w)(sid \<mapsto> deliver op ec data s)\<rparr>"
  have "unled md5 k (w\<lparr>pending := ps\<rparr>)" using ab by (auto simp: abandoned_def unled_def)
  then have "unled md5 k w1"
    using unled_update[of md5 k "w\<lparr>pending := ps\<rparr>" sid "deliver op ec data s"] s quiet_deliver by (simp add: w1_def)
  with ab have ab1: "abandoned md5 k cbs (qc, w1)" by (simp add: abandoned_def)
  show ?thesis
  proof (cases "op_handler op = OnClientRead \<or> op_handler op = OnServerRead")
    case True
    with c s ab1 safe show ?thesis
      by (auto simp: complete_def Let_def w1_def split: if_splits
          intro: abandoned_client_read abandoned_server_read)
  next
    case False
    with c s obtain r where
      r: "on_complete (op_handler op) ec (length data) (first_byte data) (deliver op ec data s) = Some r"
      by (auto simp: complete_def Let_def bind_eq_Some_conv)
    with False c s have "p = (qc, run_method sid (\<lambda>_. r) w1)"
      by (cases r) (auto simp: complete_def Let_def w1_def run_method_def)
    moreover have "unled md5 k (run_method sid (\<lambda>_. r) w1)"
      using ab1 quiet_complete[OF r]
      by (auto simp: abandoned_def unled_def run_method_sessions quiet_def w1_def split: if_splits)
    ultimately show ?thesis using ab1 by (simp add: abandoned_def)
  qed
qed

lemma abandoned_step:
  assumes "proxy_step md5 h p p'" and "proxy_inv h p" and "abandoned md5 k cbs p"
  shows "abandoned md5 k cbs p'"
  using assms
proof (induction rule: proxy_step.induct)
  case (accepted w sid qc ctxs host port)
  have st: "current_query (fst (start (new_session ctxs host port))) = []"
    by (simp add: session_method_defs new_session_def)
  with accepted show ?case
    by (auto simp: abandoned_def accept_def unled_def run_method_sessions split: if_splits)
next
  case (completed w xs sid op ys data ec qc p)
  then show ?case by (auto simp: proxy_inv_def intro: abandoned_complete)
next
  case (released sid w qc)
  then show ?case by (auto simp: abandoned_def unled_def split: if_splits)
qed

interpretation abandoned_flight: invariant "\<lambda>p. proxy_inv h p \<and> abandoned md5 k cbs p" "proxy_step md5 h"
  "\<lambda>p. proxy_inv h p \<and> abandoned md5 k cbs p" for md5 h k cbs
  by unfold_locales (auto intro: proxy_step_inv abandoned_step)

subsection \<open>Properties\<close>

lemma abandoned_forever:
  assumes "proxy_inv h p" and "abandoned md5 k cbs p" and "(proxy_step md5 h)\<^sup>*\<^sup>* p (qc', w')"
  shows "\<exists>more. qc_waiting qc' k = Some (cbs @ more)"
  using abandoned_flight.rtranclp_inv[OF assms(3), of k cbs] assms(1,2) by (auto simp: abandoned_def)


text \<open>Two sessions that read from their clients, the first also from its server.\<close>

abbreviation client_read :: async_op where "client_read \<equiv> AsyncReadSome ClientTcp OnClientRead"
abbreviation server_read :: async_op where "server_read \<equiv> AsyncReadSome ServerTcp OnServerRead"

definition reading :: io where
  "reading = three_sessions\<lparr>pending := [(0, client_read), (1, client_read), (0, server_read)]\<rparr>"

lemma reading_inv: "proxy_inv no_redis (qc_init no_redis (), reading)"
proof -
  have "chains_ok False ops bridge_session" if "ops \<in> {[], [client_read], [client_read, server_read]}" for ops
    using that bridge_session_live(1)
    by (auto simp: chains_ok_def chain_Cons client_handler_def server_handler_def op_ok_def live_def)
  then have "sessions_ok (\<lambda>_. False) reading"
    by (auto simp: sessions_ok_def session_ok_def reading_def three_sessions_def ops_of_def)
  moreover have "waits Map.empty = (\<lambda>_. False)" "flights_ok Map.empty"
    by (simp_all add: fun_eq_iff waits_def waits_for_def flights_ok_def)
  ultimately show ?thesis by (simp add: proxy_inv_def qc_safe_init)
qed

abbreviation zero_md5 :: "string \<Rightarrow> byte list" where "zero_md5 \<equiv> (\<lambda>q. replicate 16 0)"
abbreviation reset :: error_code where
  "reset \<equiv> \<lparr>ec_category = SystemCategory, ec_value = 104, ec_message = ''Connection reset by peer''\<rparr>"


text \<open>Property C23: a query with empty text strands its key for good: the session that sends it leads
  the flight but will not notify it, so every client that sends an empty query after it waits
  forever.\<close>

theorem empty_query_strands_key:
  assumes inv: "proxy_inv h (qc, w)" and unc: "uncached md5 h [] qc"
    and idle: "qc_waiting qc (hash_query md5 []) = None" and un: "unled md5 (hash_query md5 []) w"
    and pend: "pending w = xs @ (sid, AsyncReadSome (client_end s) OnClientRead) # ys"
    and s: "sessions w sid = Some s" "live s" and msg: "asks msg []"
    and c: "complete md5 h sid (AsyncReadSome (client_end s) OnClientRead) success msg (qc, w\<lparr>pending := xs @ ys\<rparr>) = Some p"
    and later: "(proxy_step md5 h)\<^sup>*\<^sup>* p (qc', w')"
  shows "qc_waiting qc' (hash_query md5 []) \<noteq> None"
proof -
  let ?k = "hash_query md5 []" and ?w = "w\<lparr>pending := xs @ ys\<rparr>"
  have "length msg \<le> BUFSIZE" using msg by (simp add: asks_def)
  from complete_ok[OF inv pend this, of md5 success] c have inv': "proxy_inv h p" by simp
  have s': "sessions ?w sid = Some s" using s(1) by simp
  from ask_leader[OF unc _ s' s(2) msg] idle c obtain qc1 where
    p: "p = (qc1, ?w\<lparr>sessions := (sessions ?w)(sid \<mapsto> (received msg s)\<lparr>current_query := []\<rparr>),
         pending := pending ?w @ [(sid, AsyncWrite (server_end s) msg OnForwarded)]\<rparr>)"
      "qc_waiting qc1 ?k = Some []" by (auto simp: qc_waiting_def)
  with un have "abandoned md5 ?k [] p" by (auto simp: abandoned_def unled_def split: if_splits)
  from abandoned_forever[OF inv' this later] show ?thesis by auto
qed

theorem empty_query_strands_key_witness:
  "\<exists>p. complete zero_md5 no_redis 0 client_read success (query_message [])
      (qc_init no_redis (), reading\<lparr>pending := [] @ [(1, client_read), (0, server_read)]\<rparr>) = Some p \<and>
    qc_waiting (fst p) (hash_query zero_md5 []) \<noteq> None"
proof -
  let ?ys = "[(1, client_read), (0, server_read)]"
  have asks: "asks (query_message []) []" by (rule query_message_asks) (simp_all add: BUFSIZE_def)
  then have len: "length (query_message []) \<le> BUFSIZE" by (simp add: asks_def)
  have b: "sessions reading 0 = Some bridge_session" by (simp add: reading_def three_sessions_def)
  have ce: "client_end bridge_session = ClientTcp" by (rule bridge_session_live)
  have pend: "pending reading = [] @ (0, AsyncReadSome (client_end bridge_session) OnClientRead) # ?ys"
    by (simp add: reading_def ce)
  have un: "unled zero_md5 k reading" for k
    by (auto simp: unled_def reading_def three_sessions_def bridge_session_live split: if_splits)
  from complete_ok[OF reading_inv pend len, of zero_md5 success] obtain qc1 w1 where
    c: "complete zero_md5 no_redis 0 (AsyncReadSome (client_end bridge_session) OnClientRead) success (query_message [])
      (qc_init no_redis (), reading\<lparr>pending := [] @ ?ys\<rparr>) = Some (qc1, w1)" by auto
  have "qc_waiting qc1 (hash_query zero_md5 []) \<noteq> None"
    by (rule empty_query_strands_key[OF reading_inv uncached_init(1) _ un pend b bridge_session_live(1) asks c
        rtranclp.rtrancl_refl]) simp
  with c ce show ?thesis by simp
qed

end
