(* ===== verification/Flight_Threads.thy ===== *)
theory Flight_Threads
  imports Single_Flight
begin

section \<open>SingleFlight under interleaving\<close>

text \<open>
  Worker threads run \<^verbatim>\<open>doSingleFlight\<close> and \<^verbatim>\<open>notifyResult\<close> concurrently; what is atomic is a
  critical section, not a call. Here every call in progress has a program counter and an
  event runs one section of one call. The sections are the definitions of
  \<open>Single_Flight\<close>. Only the leader of a flight notifies, as \<^verbatim>\<open>Session\<close> does.

  Shown for every interleaving: a waiter whose flight has been published has been called or is still
  on the list of a running notification (no wake-up is lost between the two sections of
  \<^verbatim>\<open>doSingleFlight\<close>); a ready flight that \<^verbatim>\<open>doSingleFlight\<close> erases is held by a running
  \<^verbatim>\<open>notifyResult\<close>, so its locked mutex is not destroyed. Shown by concrete runs:
  \<^verbatim>\<open>notifyResult\<close> erases whatever flight has its key by then, so a call that arrives
  between the publication and the erasure can lose its waiters for good, and a waiter can
  be called twice.
\<close>

subsection \<open>Calls in progress\<close>

type_synonym tid = nat

datatype 'cb pc =
    Idle
  | Entering string 'cb             \<comment> \<open>before \<^verbatim>\<open>flights_mutex_\<close> in \<open>doSingleFlight\<close>\<close>
  | Joining string nat 'cb          \<comment> \<open>holds a flight, before its mutex\<close>
  | Leading string nat              \<comment> \<open>got \<open>IS_LEADER\<close>, the query is on its way\<close>
  | Looking string string           \<comment> \<open>before the lookup of \<open>notifyResult\<close>\<close>
  | Publishing string nat string    \<comment> \<open>holds a flight, before its mutex\<close>
  | Calling string nat string "'cb list"  \<comment> \<open>callbacks still to run, then the erasure\<close>

record 'cb threads =
  shared :: "'cb SingleFlight"
  th_pc :: "tid \<Rightarrow> 'cb pc"
  delivered :: "('cb \<times> string) list"
  joined :: "(nat \<times> 'cb) list"

text \<open>\<open>delivered\<close> logs the calls of callbacks and \<open>joined\<close> the waiters with the flight they
  joined; the code has neither.\<close>

definition threads_init :: "'cb threads" where
  "threads_init = \<lparr>shared = sf_init, th_pc = (\<lambda>_. Idle), delivered = [], joined = []\<rparr>"

datatype 'cb event =
    BeginCall tid string 'cb | Enter tid | Join tid
  | BeginNotify tid string | Lookup tid | Publish tid | CallBack tid | Erase tid

abbreviation log_call :: "('cb, ('cb \<times> string) list) invoke" where
  "log_call cb r log \<equiv> (Inr (), log @ [(cb, r)])"

abbreviation set_pc :: "tid \<Rightarrow> 'cb pc \<Rightarrow> 'cb threads \<Rightarrow> 'cb threads" where
  "set_pc t p s \<equiv> s\<lparr>th_pc := (th_pc s)(t := p)\<rparr>"

fun exec :: "'cb event \<Rightarrow> 'cb threads \<Rightarrow> 'cb threads option" where
  "exec (BeginCall t key cb) s =
     (case th_pc s t of Idle \<Rightarrow> Some (set_pc t (Entering key cb) s) | _ \<Rightarrow> None)"
| "exec (Enter t) s =
     (case th_pc s t of
        Entering key cb \<Rightarrow>
          (case doSingleFlight_enter key (shared s) of (f, is_new, sf') \<Rightarrow>
             Some (set_pc t (if is_new then Leading key f else Joining key f cb) (s\<lparr>shared := sf'\<rparr>)))
      | _ \<Rightarrow> None)"
| "exec (Join t) s =
     (case th_pc s t of
        Joining key f cb \<Rightarrow>
          (case doSingleFlight_join log_call f cb (shared s, delivered s) of (_, sf', log) \<Rightarrow>
             Some (set_pc t Idle (s\<lparr>shared := sf', delivered := log, joined := joined s @ [(f, cb)]\<rparr>)))
      | _ \<Rightarrow> None)"
| "exec (BeginNotify t result) s =
     (case th_pc s t of Leading key f \<Rightarrow> Some (set_pc t (Looking key result) s) | _ \<Rightarrow> None)"
| "exec (Lookup t) s =
     (case th_pc s t of
        Looking key result \<Rightarrow>
          Some (set_pc t (case flights (shared s) key of
                            None \<Rightarrow> Idle | Some f \<Rightarrow> Publishing key f result) s)
      | _ \<Rightarrow> None)"
| "exec (Publish t) s =
     (case th_pc s t of
        Publishing key f result \<Rightarrow>
          (case notify_publish f result (shared s) of (cbs, sf') \<Rightarrow>
             Some (set_pc t (Calling key f result cbs) (s\<lparr>shared := sf'\<rparr>)))
      | _ \<Rightarrow> None)"
| "exec (CallBack t) s =
     (case th_pc s t of
        Calling key f result (cb # cbs) \<Rightarrow>
          Some (set_pc t (Calling key f result cbs) (s\<lparr>delivered := delivered s @ [(cb, result)]\<rparr>))
      | _ \<Rightarrow> None)"
| "exec (Erase t) s =
     (case th_pc s t of
        Calling key f result [] \<Rightarrow> Some (set_pc t Idle (s\<lparr>shared := notify_erase key (shared s)\<rparr>))
      | _ \<Rightarrow> None)"

fun exec_all :: "'cb event list \<Rightarrow> 'cb threads \<Rightarrow> 'cb threads option" where
  "exec_all [] s = Some s"
| "exec_all (e # es) s = do { s' \<leftarrow> exec e s; exec_all es s' }"

definition flight_step :: "'cb threads \<Rightarrow> 'cb threads \<Rightarrow> bool" where
  "flight_step s t \<longleftrightarrow> (\<exists>e. exec e s = Some t)"

lemma exec_all_steps: "exec_all es s = Some t \<Longrightarrow> flight_step\<^sup>*\<^sup>* s t"
proof (induction es arbitrary: s)
  case (Cons e es)
  then obtain u where "exec e s = Some u" and "exec_all es u = Some t"
    by (auto simp: bind_eq_Some_conv)
  with Cons.IH show ?case
    by (metis converse_rtranclp_into_rtranclp flight_step_def)
qed simp

lemma exec_all_reachable:
  "exec_all es threads_init = Some t \<Longrightarrow> reachable (\<lambda>s. s = threads_init) flight_step t"
  by (blast intro: reachable_rtranclp[OF exec_all_steps] reachable_start)

subsection \<open>Sections run without interference are the calls\<close>

lemma exec_call_leader:
  assumes "th_pc s t = Idle" and "flights (shared s) key = None"
    and "doSingleFlight log_call key cb (shared s, delivered s) = (Inr role, sf', log)"
  shows "role = IS_LEADER \<and>
    exec_all [BeginCall t key cb, Enter t] s = Some (set_pc t (Leading key (next_flight (shared s))) (s\<lparr>shared := sf', delivered := log\<rparr>))"
  using assms by (auto simp: doSingleFlight_def doSingleFlight_enter_def make_flight_def Let_def)

lemma exec_call_waiter:
  assumes "th_pc s t = Idle" and "flights (shared s) key = Some f" and "\<not> ready (heap (shared s) f)"
    and "doSingleFlight log_call key cb (shared s, delivered s) = (Inr role, sf', log)"
  shows "role = IS_WAITER \<and> exec_all [BeginCall t key cb, Enter t, Join t] s =
    Some (s\<lparr>shared := sf', delivered := log, joined := joined s @ [(f, cb)]\<rparr>)"
  using assms
  by (auto simp: doSingleFlight_def doSingleFlight_enter_def doSingleFlight_join_def Let_def fun_upd_idem)

lemma exec_callbacks:
  "th_pc s t = Calling key f result cbs \<Longrightarrow>
   exec_all (replicate (length cbs) (CallBack t)) s =
     Some (set_pc t (Calling key f result []) (s\<lparr>delivered := run_callbacks log_call cbs result (delivered s)\<rparr>))"
proof (induction cbs arbitrary: s)
  case (Cons cb cbs)
  then show ?case
    using Cons.IH[of "set_pc t (Calling key f result cbs) (s\<lparr>delivered := delivered s @ [(cb, result)]\<rparr>)"]
    by (simp cong: if_cong)
qed (simp add: fun_upd_idem)

subsection \<open>Invariants of all interleavings\<close>

fun pc_flight :: "'cb pc \<Rightarrow> (string \<times> nat) option" where
  "pc_flight (Joining k f cb) = Some (k, f)"
| "pc_flight (Leading k f) = Some (k, f)"
| "pc_flight (Publishing k f r) = Some (k, f)"
| "pc_flight (Calling k f r cbs) = Some (k, f)"
| "pc_flight _ = None"

text \<open>Flights are allocated, belong to one key, and a call that holds a flight knows its key.\<close>

definition inv_ids :: "'cb threads \<Rightarrow> bool" where
  "inv_ids s \<longleftrightarrow>
     (\<forall>k f. flights (shared s) k = Some f \<longrightarrow> f < next_flight (shared s)) \<and>
     (\<forall>k j f. flights (shared s) k = Some f \<longrightarrow> flights (shared s) j = Some f \<longrightarrow> j = k) \<and>
     (\<forall>t k f. pc_flight (th_pc s t) = Some (k, f) \<longrightarrow>
        f < next_flight (shared s) \<and> (\<forall>j. flights (shared s) j = Some f \<longrightarrow> j = k))"

text \<open>A ready flight in the map is held by a running notification.\<close>

definition inv_held :: "'cb threads \<Rightarrow> bool" where
  "inv_held s \<longleftrightarrow>
     (\<forall>k f. flights (shared s) k = Some f \<longrightarrow> ready (heap (shared s) f) \<longrightarrow>
        (\<exists>t r cbs. th_pc s t = Calling k f r cbs))"

text \<open>A waiter has been called, or waits in a flight that is not published yet, or is on
  the list of a running notification.\<close>

definition served :: "'cb threads \<Rightarrow> nat \<Rightarrow> 'cb \<Rightarrow> bool" where
  "served s f cb \<longleftrightarrow>
     cb \<in> fst ` set (delivered s) \<or>
     cb \<in> set (callbacks (heap (shared s) f)) \<and>
       (\<not> ready (heap (shared s) f) \<or> (\<exists>t k r cbs. th_pc s t = Calling k f r cbs \<and> cb \<in> set cbs))"

definition inv_wake :: "'cb threads \<Rightarrow> bool" where
  "inv_wake s \<longleftrightarrow>
     (\<forall>f cb. (f, cb) \<in> set (joined s) \<longrightarrow> f < next_flight (shared s) \<and> served s f cb)"

lemma enter_cases:
  assumes "doSingleFlight_enter key sf = (f, is_new, sf')"
  obtains (old) "\<not> is_new" "sf' = sf" "flights sf key = Some f" "\<not> ready (heap sf f)"
  | (new) "is_new" "f = next_flight sf" "flights sf' = (flights sf)(key \<mapsto> f)"
      "heap sf' = (heap sf)(f := new_Flight)" "next_flight sf' = Suc f"
proof (cases "flights sf key")
  case None
  with assms new show ?thesis
    by (auto simp: doSingleFlight_enter_def make_flight_def Let_def)
next
  case (Some g)
  with assms old new show ?thesis
    by (cases "ready (heap sf g)") (auto simp: doSingleFlight_enter_def make_flight_def Let_def)
qed

text \<open>One event, as what it reads and writes.\<close>

lemma exec_cases [consumes 1, case_names idle enter_old enter_new join_ready join_wait
    begin_notify lookup_none lookup publish call erase]:
  assumes "exec e s = Some s'"
  obtains (idle) t key cb where "th_pc s t = Idle" "s' = set_pc t (Entering key cb) s"
  | (enter_old) t key cb f where "th_pc s t = Entering key cb" "flights (shared s) key = Some f"
      "\<not> ready (heap (shared s) f)" "s' = set_pc t (Joining key f cb) s"
  | (enter_new) t key cb f sf' where "th_pc s t = Entering key cb" "f = next_flight (shared s)"
      "flights sf' = (flights (shared s))(key \<mapsto> f)" "heap sf' = (heap (shared s))(f := new_Flight)"
      "next_flight sf' = Suc f" "s' = set_pc t (Leading key f) (s\<lparr>shared := sf'\<rparr>)"
  | (join_ready) t key f cb where "th_pc s t = Joining key f cb" "ready (heap (shared s) f)"
      "s' = set_pc t Idle (s\<lparr>delivered := delivered s @ [(cb, flight_result (heap (shared s) f))],
                            joined := joined s @ [(f, cb)]\<rparr>)"
  | (join_wait) t key f cb fl where "th_pc s t = Joining key f cb" "\<not> ready (heap (shared s) f)"
      "fl = (heap (shared s) f)\<lparr>waiters := waiters (heap (shared s) f) + 1,
                                 callbacks := callbacks (heap (shared s) f) @ [cb]\<rparr>"
      "s' = set_pc t Idle (s\<lparr>shared := (shared s)\<lparr>heap := (heap (shared s))(f := fl)\<rparr>,
                            joined := joined s @ [(f, cb)]\<rparr>)"
  | (begin_notify) t key f r where "th_pc s t = Leading key f" "s' = set_pc t (Looking key r) s"
  | (lookup_none) t key r where "th_pc s t = Looking key r" "s' = set_pc t Idle s"
  | (lookup) t key f r where "th_pc s t = Looking key r" "flights (shared s) key = Some f"
      "s' = set_pc t (Publishing key f r) s"
  | (publish) t key f r fl where "th_pc s t = Publishing key f r"
      "fl = (heap (shared s) f)\<lparr>flight_result := r, ready := True\<rparr>"
      "s' = set_pc t (Calling key f r (callbacks (heap (shared s) f)))
              (s\<lparr>shared := (shared s)\<lparr>heap := (heap (shared s))(f := fl)\<rparr>\<rparr>)"
  | (call) t key f r cb cbs where "th_pc s t = Calling key f r (cb # cbs)"
      "s' = set_pc t (Calling key f r cbs) (s\<lparr>delivered := delivered s @ [(cb, r)]\<rparr>)"
  | (erase) t key f r where "th_pc s t = Calling key f r []"
      "s' = set_pc t Idle (s\<lparr>shared := (shared s)\<lparr>flights := (flights (shared s))(key := None)\<rparr>\<rparr>)"
proof (cases e)
  case (BeginCall t key cb)
  with assms idle show ?thesis by (auto split: pc.splits)
next
  case (Enter t)
  with assms obtain key cb f is_new sf' where p: "th_pc s t = Entering key cb"
    and en: "doSingleFlight_enter key (shared s) = (f, is_new, sf')"
    and s': "s' = set_pc t (if is_new then Leading key f else Joining key f cb) (s\<lparr>shared := sf'\<rparr>)"
    by (auto split: pc.splits prod.splits)
  from en show ?thesis
    by (cases rule: enter_cases) (use p s' enter_old enter_new in auto)
next
  case (Join t)
  with assms obtain key f cb where p: "th_pc s t = Joining key f cb"
    by (auto split: pc.splits)
  with Join assms join_ready join_wait show ?thesis
    by (cases "ready (heap (shared s) f)") (auto simp: doSingleFlight_join_def Let_def)
next
  case (BeginNotify t r)
  with assms begin_notify show ?thesis by (auto split: pc.splits)
next
  case (Lookup t)
  with assms lookup_none lookup show ?thesis by (auto split: pc.splits option.splits)
next
  case (Publish t)
  with assms publish show ?thesis by (auto simp: notify_publish_def Let_def split: pc.splits)
next
  case (CallBack t)
  with assms call show ?thesis by (auto split: pc.splits list.splits)
next
  case (Erase t)
  with assms erase show ?thesis by (auto simp: notify_erase_def split: pc.splits list.splits)
qed

lemma inv_ids_frame:
  assumes "inv_ids s" and "next_flight (shared s') = next_flight (shared s)"
    and "\<And>k f. flights (shared s') k = Some f \<Longrightarrow> flights (shared s) k = Some f"
    and "\<And>u. u \<noteq> t \<Longrightarrow> th_pc s' u = th_pc s u"
    and "\<And>k f. pc_flight (th_pc s' t) = Some (k, f) \<Longrightarrow>
           pc_flight (th_pc s t) = Some (k, f) \<or> flights (shared s) k = Some f"
  shows "inv_ids s'"
  unfolding inv_ids_def
proof (intro conjI allI impI)
  fix u k f
  assume "pc_flight (th_pc s' u) = Some (k, f)"
  then have *: "pc_flight (th_pc s u) = Some (k, f) \<or> flights (shared s) k = Some f"
    using assms(4,5) by metis
  then show "f < next_flight (shared s')"
    using assms(1,2) unfolding inv_ids_def by metis
  fix j
  assume "flights (shared s') j = Some f"
  with * show "j = k"
    using assms(1,3) unfolding inv_ids_def by metis
next
  fix k j f
  assume "flights (shared s') k = Some f"
  then have k: "flights (shared s) k = Some f" by (rule assms(3))
  then show "f < next_flight (shared s')"
    using assms(1,2) by (simp add: inv_ids_def)
  assume "flights (shared s') j = Some f"
  with k show "j = k" using assms(1,3) unfolding inv_ids_def by blast
qed

lemma inv_ids_exec:
  assumes "inv_ids s" and "exec e s = Some s'"
  shows "inv_ids s'"
  using assms(2)
proof (cases rule: exec_cases)
  case (enter_new t key cb f sf')
  with assms(1) have fresh: "flights (shared s) k \<noteq> Some f" "pc_flight (th_pc s u) \<noteq> Some (k, f)" for k u
    unfolding inv_ids_def by (metis less_irrefl)+
  with assms(1) enter_new show ?thesis
    by (auto simp: inv_ids_def intro: less_SucI)
qed (auto intro!: inv_ids_frame[OF assms(1)] split: if_splits)

lemma inv_held_frame:
  assumes "inv_held s"
    and "\<And>k f. flights (shared s') k = Some f \<Longrightarrow> ready (heap (shared s') f) \<Longrightarrow>
           flights (shared s) k = Some f \<and> ready (heap (shared s) f)"
    and "\<And>k f r cbs. th_pc s t \<noteq> Calling k f r cbs"
    and "\<And>u. u \<noteq> t \<Longrightarrow> th_pc s' u = th_pc s u"
  shows "inv_held s'"
  using assms unfolding inv_held_def by metis

lemma inv_held_exec:
  assumes ids: "inv_ids s" and held: "inv_held s" and ex: "exec e s = Some s'"
  shows "inv_held s'"
  using ex
proof (cases rule: exec_cases)
  case (enter_new t key cb f sf')
  then show ?thesis
    using ids by (auto intro!: inv_held_frame[OF held, of _ t] simp: new_Flight_def inv_ids_def split: if_splits)
next
  case (publish t key f r fl)
  with ids have "j = key" if "flights (shared s) j = Some f" for j
    using that unfolding inv_ids_def by (metis pc_flight.simps(3))
  with publish held show ?thesis
    unfolding inv_held_def by (auto; metis pc.distinct(41))
next
  case (call t key f r cb cbs)
  with held show ?thesis
    unfolding inv_held_def by (auto; metis pc.inject(6))
next
  case (erase t key f r)
  with held show ?thesis
    unfolding inv_held_def by (auto; metis pc.inject(6))
qed (auto intro!: inv_held_frame[OF held] split: if_splits)

lemma served_frame:
  assumes "served s f cb" and "set (delivered s) \<subseteq> set (delivered s')"
    and "heap (shared s') f = heap (shared s) f"
    and "\<And>k r cbs. th_pc s t \<noteq> Calling k f r cbs"
    and "\<And>u. u \<noteq> t \<Longrightarrow> th_pc s' u = th_pc s u"
  shows "served s' f cb"
  using assms unfolding served_def by (metis image_mono subsetD)

lemma served_exec:
  assumes ids: "g < next_flight (shared s)" and srv: "served s g w" and ex: "exec e s = Some s'"
  shows "served s' g w"
  using ex
proof (cases rule: exec_cases)
  case (enter_new t key cb f sf')
  with ids show ?thesis by (auto intro!: served_frame[OF srv, of _ t])
next
  case (join_wait t key f cb fl)
  show ?thesis
  proof (cases "g = f")
    case True
    with join_wait srv show ?thesis by (auto simp: served_def)
  next
    case False
    with join_wait show ?thesis by (auto intro!: served_frame[OF srv, of _ t])
  qed
next
  case (publish t key f r fl)
  show ?thesis
  proof (cases "g = f")
    case True
    have "th_pc s' t = Calling key f r (callbacks (heap (shared s) f))" using publish by simp
    moreover have "delivered s' = delivered s" "callbacks (heap (shared s') f) = callbacks (heap (shared s) f)"
      using publish by auto
    ultimately show ?thesis
      using srv True unfolding served_def by metis
  next
    case False
    with publish show ?thesis by (auto intro!: served_frame[OF srv, of _ t])
  qed
next
  case (call t key f r cb cbs)
  have keep: "th_pc s' u = Calling k h q ds \<or> u = t \<and> th_pc s' t = Calling k h q (tl ds) \<and> hd ds = cb"
    if "th_pc s u = Calling k h q ds" for u k h q ds
    using call that by auto
  have "delivered s' = delivered s @ [(cb, r)]" "heap (shared s') g = heap (shared s) g"
    using call by auto
  with srv keep show ?thesis
    unfolding served_def
    by (auto) (metis list.exhaust_sel list.set_intros set_ConsD empty_iff list.set(1) image_eqI)
next
  case (erase t key f r)
  have "th_pc s' u = Calling k h q ds" if "th_pc s u = Calling k h q ds" "w \<in> set ds" for u k h q ds
    using erase that by auto
  moreover have "delivered s' = delivered s" "heap (shared s') g = heap (shared s) g"
    using erase by auto
  ultimately show ?thesis
    using srv unfolding served_def by metis
qed (auto intro!: served_frame[OF srv])

lemma inv_ids_pc: "inv_ids s \<Longrightarrow> pc_flight (th_pc s t) = Some (k, f) \<Longrightarrow> f < next_flight (shared s)"
  unfolding inv_ids_def by blast

lemma inv_wake_exec:
  assumes ids: "inv_ids s" and wake: "inv_wake s" and ex: "exec e s = Some s'"
  shows "inv_wake s'"
proof -
  have mono: "next_flight (shared s) \<le> next_flight (shared s')"
    using ex by (cases rule: exec_cases) auto
  have old: "g < next_flight (shared s') \<and> served s' g w" if "(g, w) \<in> set (joined s)" for g w
    using that wake mono served_exec[OF _ _ ex] unfolding inv_wake_def by (meson less_le_trans)
  have new: "g < next_flight (shared s') \<and> served s' g w"
    if "(g, w) \<in> set (joined s')" "(g, w) \<notin> set (joined s)" for g w
    using ex
  proof (cases rule: exec_cases)
    case (join_ready t key f cb)
    with that inv_ids_pc[OF ids, of t key f] show ?thesis by (auto simp: served_def)
  next
    case (join_wait t key f cb fl)
    with that inv_ids_pc[OF ids, of t key f] show ?thesis by (auto simp: served_def)
  qed (use that in auto)
  from old new show ?thesis unfolding inv_wake_def by blast
qed

definition flight_inv :: "'cb threads \<Rightarrow> bool" where
  "flight_inv s \<longleftrightarrow> inv_ids s \<and> inv_held s \<and> inv_wake s"

interpretation flight_threads: invariant "\<lambda>s. s = threads_init" flight_step flight_inv
proof unfold_locales
  fix s t :: "'a threads"
  assume "flight_inv s" and "flight_step s t"
  then show "flight_inv t"
    unfolding flight_inv_def flight_step_def
    using inv_ids_exec inv_held_exec inv_wake_exec by blast
qed (simp add: flight_inv_def inv_ids_def inv_held_def inv_wake_def threads_init_def sf_init_def)

subsection \<open>Flights nobody can reach\<close>

definition orphan :: "'cb threads \<Rightarrow> nat \<Rightarrow> bool" where
  "orphan s f \<longleftrightarrow> f < next_flight (shared s) \<and> (\<forall>k. flights (shared s) k \<noteq> Some f) \<and>
     (\<forall>t k. pc_flight (th_pc s t) \<noteq> Some (k, f))"

lemma orphan_exec:
  assumes orph: "orphan s f" and ex: "exec e s = Some s'"
  shows "orphan s' f \<and> heap (shared s') f = heap (shared s) f"
proof -
  have pcs: "pc_flight (th_pc s t) = Some (k, g) \<Longrightarrow> g \<noteq> f" for t k g
    using orph unfolding orphan_def by metis
  from ex show ?thesis
  proof (cases rule: exec_cases)
    case (join_wait t key g cb fl)
    with pcs[of t key g] orph show ?thesis by (auto simp: orphan_def)
  next
    case (publish t key g r fl)
    with pcs[of t key g] orph show ?thesis by (auto simp: orphan_def)
  next
    case (call t key g r cb cbs)
    with pcs[of t key g] orph show ?thesis by (auto simp: orphan_def)
  qed (use orph in \<open>auto simp: orphan_def\<close>)
qed

lemma orphan_forever:
  assumes "flight_step\<^sup>*\<^sup>* s s'" and "orphan s f"
  shows "orphan s' f \<and> heap (shared s') f = heap (shared s) f"
  using assms
proof (induction rule: rtranclp_induct)
  case (step t u)
  then show ?case using orphan_exec unfolding flight_step_def by metis
qed simp

subsection \<open>Properties\<close>

text \<open>Property C3: no lost wake-up inside a flight. In every interleaving of the critical sections,
  a waiter of \<^verbatim>\<open>doSingleFlight\<close> either has had its callback run, or its flight is not
  published yet, or a running \<^verbatim>\<open>notifyResult\<close> still has the callback on its list.\<close>

theorem no_lost_wakeup:
  assumes "reachable (\<lambda>s. s = threads_init) flight_step s" and "(f, cb) \<in> set (joined s)"
    and "ready (heap (shared s) f)"
  shows "(\<exists>r. (cb, r) \<in> set (delivered s)) \<or> (\<exists>t k r cbs. th_pc s t = Calling k f r cbs \<and> cb \<in> set cbs)"
proof -
  from flight_threads.reachable_inv[OF assms(1)] have "inv_wake s" by (simp add: flight_inv_def)
  with assms(2) have "served s f cb" by (simp add: inv_wake_def)
  then consider "cb \<in> fst ` set (delivered s)" | "\<exists>t k r cbs. th_pc s t = Calling k f r cbs \<and> cb \<in> set cbs"
    using assms(3) unfolding served_def by blast
  then show ?thesis by cases auto
qed

theorem no_lost_wakeup_witness:
  "\<exists>s. reachable (\<lambda>s. s = threads_init) flight_step s \<and> (0, 7 :: nat) \<in> set (joined s) \<and>
     ((\<exists>r. (7, r) \<in> set (delivered s)) \<or> (\<exists>t k r cbs. th_pc s t = Calling k 0 r cbs \<and> 7 \<in> set cbs))"
proof -
  let ?es = "[BeginCall 1 ''k'' 5, Enter 1, BeginCall 2 ''k'' 7, Enter 2,
    BeginNotify 1 ''r'', Lookup 1, Publish 1, Join 2] :: nat event list"
  obtain s where s: "exec_all ?es threads_init = Some s" "(0, 7) \<in> set (joined s)" "ready (heap (shared s) 0)"
    by (simp add: threads_init_def sf_init_def sf_op_defs new_Flight_def Let_def)
  from exec_all_reachable[OF s(1)] s(2) no_lost_wakeup[OF exec_all_reachable[OF s(1)] s(2,3)]
  show ?thesis by blast
qed

text \<open>Property C19: the ready flight that the first section of \<^verbatim>\<open>doSingleFlight\<close> finds under a key,
  and then drops from the map while it holds the flight's mutex, is always held by another
  call, a \<^verbatim>\<open>notifyResult\<close> that has not erased the key yet: the last \<^verbatim>\<open>shared_ptr\<close> to it is not
  released there, and the locked mutex is not destroyed.\<close>

theorem replaced_flight_is_held:
  assumes "reachable (\<lambda>s. s = threads_init) flight_step s" and "th_pc s t = Entering k cb"
    and "flights (shared s) k = Some f" and "ready (heap (shared s) f)"
  shows "\<exists>u r cbs. u \<noteq> t \<and> th_pc s u = Calling k f r cbs"
proof -
  from flight_threads.reachable_inv[OF assms(1)] have "inv_held s" by (simp add: flight_inv_def)
  then obtain u r cbs where "th_pc s u = Calling k f r cbs"
    using assms(3,4) unfolding inv_held_def by blast
  moreover from this assms(2) have "u \<noteq> t" by auto
  ultimately show ?thesis by blast
qed

theorem replaced_flight_is_held_witness:
  "\<exists>s u r cbs. reachable (\<lambda>s. s = threads_init) flight_step s \<and>
     th_pc s 2 = Entering ''k'' (7 :: nat) \<and> u \<noteq> 2 \<and> th_pc s u = Calling ''k'' 0 r cbs"
proof -
  let ?es = "[BeginCall 1 ''k'' 5, Enter 1, BeginNotify 1 ''r'', Lookup 1, Publish 1,
    BeginCall 2 ''k'' 7] :: nat event list"
  obtain s where s: "exec_all ?es threads_init = Some s" "th_pc s 2 = Entering ''k'' 7"
      "flights (shared s) ''k'' = Some 0" "ready (heap (shared s) 0)"
    by (simp add: threads_init_def sf_init_def sf_op_defs new_Flight_def Let_def)
  from exec_all_reachable[OF s(1)] s(2) replaced_flight_is_held[OF exec_all_reachable[OF s(1)] s(2-4)]
  show ?thesis by blast
qed

text \<open>Property C20: \<^verbatim>\<open>notifyResult\<close> erases its key whatever flight is there. There is a run of the
  critical sections of three calls in which a new leader's flight is erased by the previous
  notification: in the end every call has returned, the waiter of that flight has not been called,
  and in no continuation is its flight ever published.\<close>

theorem waiter_lost_forever:
  "\<exists>(s :: nat threads) f cb. reachable (\<lambda>s. s = threads_init) flight_step s \<and>
     (\<forall>t. th_pc s t = Idle) \<and> (f, cb) \<in> set (joined s) \<and> cb \<notin> fst ` set (delivered s) \<and>
     (\<forall>s'. flight_step\<^sup>*\<^sup>* s s' \<longrightarrow> cb \<in> set (callbacks (heap (shared s') f)) \<and> \<not> ready (heap (shared s') f))"
proof -
  let ?es = "[BeginCall 1 ''k'' 5, Enter 1, BeginNotify 1 ''r1'', Lookup 1, Publish 1,
    BeginCall 2 ''k'' 6, Enter 2, BeginCall 3 ''k'' 7, Enter 3, Join 3, Erase 1,
    BeginNotify 2 ''r2'', Lookup 2] :: nat event list"
  obtain s where s: "exec_all ?es threads_init = Some s" "\<forall>t. th_pc s t = Idle"
      "(1, 7) \<in> set (joined s)" "7 \<notin> fst ` set (delivered s)" "orphan s 1"
      "7 \<in> set (callbacks (heap (shared s) 1))" "\<not> ready (heap (shared s) 1)"
    by (simp add: threads_init_def sf_init_def sf_op_defs new_Flight_def Let_def orphan_def)
  have "\<forall>s'. flight_step\<^sup>*\<^sup>* s s' \<longrightarrow> 7 \<in> set (callbacks (heap (shared s') 1)) \<and> \<not> ready (heap (shared s') 1)"
    using orphan_forever[OF _ s(5)] s(6,7) by metis
  with exec_all_reachable[OF s(1)] s(2-4) show ?thesis by blast
qed

theorem waiter_lost_forever_witness:
  "\<exists>(s :: nat threads) s' f cb. reachable (\<lambda>s. s = threads_init) flight_step s \<and> flight_step s s' \<and>
     (f, cb) \<in> set (joined s) \<and> cb \<in> set (callbacks (heap (shared s') f)) \<and> \<not> ready (heap (shared s') f)"
proof -
  obtain s :: "nat threads" and f cb where s: "reachable (\<lambda>s. s = threads_init) flight_step s"
    "\<forall>t. th_pc s t = Idle" "(f, cb) \<in> set (joined s)"
    and never: "\<And>s'. flight_step\<^sup>*\<^sup>* s s' \<Longrightarrow> cb \<in> set (callbacks (heap (shared s') f)) \<and> \<not> ready (heap (shared s') f)"
    using waiter_lost_forever by blast
  let ?s = "set_pc 1 (Entering ''k'' 8) s"
  have "exec (BeginCall 1 ''k'' 8) s = Some ?s" using s(2) by simp
  then have st: "flight_step s ?s" unfolding flight_step_def by blast
  with never[of ?s] s(1,3) show ?thesis by blast
qed

text \<open>Property C21: for the same reason two leaders of one key can notify the same flight: there is
  a run in which a waiter that called \<^verbatim>\<open>doSingleFlight\<close> once has its callback run twice, with
  two different results.\<close>

theorem waiter_called_twice:
  "\<exists>(s :: nat threads) f cb. reachable (\<lambda>s. s = threads_init) flight_step s \<and>
     joined s = [(f, cb)] \<and> delivered s = [(cb, ''r2''), (cb, ''r3'')]"
proof -
  let ?es = "[BeginCall 1 ''k'' 5, Enter 1, BeginNotify 1 ''r1'', Lookup 1, Publish 1,
    BeginCall 2 ''k'' 6, Enter 2, Erase 1, BeginCall 3 ''k'' 7, Enter 3,
    BeginCall 4 ''k'' 8, Enter 4, Join 4, BeginNotify 2 ''r2'', Lookup 2, BeginNotify 3 ''r3'', Lookup 3,
    Publish 2, CallBack 2, Publish 3, CallBack 3] :: nat event list"
  obtain s where s: "exec_all ?es threads_init = Some s" "joined s = [(2, 8)]"
      "delivered s = [(8, ''r2''), (8, ''r3'')]"
    by (simp add: threads_init_def sf_init_def sf_op_defs new_Flight_def Let_def)
  with exec_all_reachable[OF s(1)] show ?thesis by blast
qed

end
