(* ===== verification/SSL_Context.thy ===== *)
theory SSL_Context
  imports Prelude
begin

section \<open>SharedSSLContext\<close>

text \<open>
  The process-wide TLS contexts of \<^verbatim>\<open>src/src/Session/SharedSSLContext.cpp\<close>. \<^verbatim>\<open>setup_server_context\<close> makes a key and a
  self-signed certificate with OpenSSL's C interface, where every object has to be freed by hand on
  every path. The model is the sequence of calls on those objects for given results of the three calls
  that are checked; OpenSSL itself is a parameter only through these results. Objects are counted by
  reference: \<^verbatim>\<open>EVP_PKEY_set1_RSA\<close>, \<^verbatim>\<open>SSL_CTX_use_certificate\<close> and \<^verbatim>\<open>SSL_CTX_use_PrivateKey\<close> take their own reference,
  so that the caller still has to free its own.
\<close>

datatype ssl_object = EVP_PKEY | RSA | BIGNUM | X509

datatype ssl_call =
    New ssl_object
  | Free ssl_object
  | Call string "ssl_object list"

text \<open>The options and verify mode of the two contexts.\<close>

datatype ssl_option = default_workarounds | no_sslv2 | no_sslv3 | single_dh_use
datatype verify_mode = verify_none | verify_peer

record ssl_context =
  ctx_options :: "ssl_option list"
  ctx_verify :: verify_mode
  ctx_default_paths :: bool
  ctx_ciphers :: string
  ctx_certificate :: bool
  ctx_private_key :: bool

definition new_context :: ssl_context where
  "new_context = \<lparr>ctx_options = [], ctx_verify = verify_none, ctx_default_paths = False, ctx_ciphers = [],
     ctx_certificate = False, ctx_private_key = False\<rparr>"

definition setup_client_context :: "ssl_context \<Rightarrow> ssl_context" where
  "setup_client_context c = c\<lparr>ctx_default_paths := True, ctx_verify := verify_none,
     ctx_options := ctx_options c @ [default_workarounds, no_sslv2, no_sslv3, single_dh_use]\<rparr>"

text \<open>\<open>cert_result\<close>, \<open>key_result\<close> and \<open>matches\<close> are the results of \<^verbatim>\<open>SSL_CTX_use_certificate\<close>, \<^verbatim>\<open>SSL_CTX_use_PrivateKey\<close> and
  \<^verbatim>\<open>SSL_CTX_check_private_key\<close>. The certificate (the key) is installed if its call returned 1.\<close>

definition setup_server_context :: "int \<Rightarrow> int \<Rightarrow> int \<Rightarrow> ssl_context \<Rightarrow> ssl_call list \<times> ssl_context" where
  "setup_server_context cert_result key_result matches c =
     (let c = c\<lparr>ctx_options := ctx_options c @ [default_workarounds, no_sslv2, no_sslv3, single_dh_use],
                ctx_verify := verify_none,
                ctx_ciphers := ''DEFAULT:!aNULL:!eNULL:!MD5:!3DES:!DES:!RC4:!IDEA''\<rparr>;
          generate = [New EVP_PKEY, New RSA, New BIGNUM, Call ''BN_set_word'' [BIGNUM],
            Call ''RSA_generate_key_ex'' [RSA, BIGNUM], Call ''EVP_PKEY_set1_RSA'' [EVP_PKEY, RSA],
            Free RSA, Free BIGNUM];
          certify = [New X509, Call ''X509_set_version'' [X509], Call ''ASN1_INTEGER_set'' [X509],
            Call ''X509_gmtime_adj'' [X509], Call ''X509_gmtime_adj'' [X509], Call ''X509_set_pubkey'' [X509, EVP_PKEY],
            Call ''X509_get_subject_name'' [X509], Call ''X509_NAME_add_entry_by_txt'' [X509],
            Call ''X509_set_issuer_name'' [X509], Call ''X509_sign'' [X509, EVP_PKEY],
            Call ''SSL_CTX_use_certificate'' [X509], Call ''SSL_CTX_use_PrivateKey'' [EVP_PKEY]];
          c = c\<lparr>ctx_certificate := (cert_result = 1), ctx_private_key := (key_result = 1)\<rparr>
      in if cert_result \<noteq> 1 \<or> key_result \<noteq> 1 then (generate @ certify @ [Free X509, Free EVP_PKEY], c)
      else let check = [Call ''SSL_CTX_check_private_key'' []] in
        if matches = 0 then (generate @ certify @ check @ [Free X509, Free EVP_PKEY], c)
        else (generate @ certify @ check @ [Free X509, Free EVP_PKEY], c))"

definition SharedSSLContext :: "int \<Rightarrow> int \<Rightarrow> int \<Rightarrow> ssl_context \<times> ssl_context" where
  "SharedSSLContext cert_result key_result matches =
     (setup_client_context new_context, snd (setup_server_context cert_result key_result matches new_context))"

subsection \<open>References\<close>

text \<open>The caller's references: a call may use, and a free may drop, only what the caller still owns; \<open>None\<close> is a
  use after free, a double free, or a leak of an object that is overwritten.\<close>

fun owns :: "ssl_object list \<Rightarrow> ssl_call list \<Rightarrow> ssl_object list option" where
  "owns held [] = Some held"
| "owns held (New x # cs) = (if x \<in> set held then None else owns (x # held) cs)"
| "owns held (Free x # cs) = (if x \<in> set held then owns (removeAll x held) cs else None)"
| "owns held (Call f xs # cs) = (if set xs \<subseteq> set held then owns held cs else None)"


end
