(* ===== verification/Spec2Isabelle.thy ===== *)
theory Spec2Isabelle
  imports Main_Program Proxy_Liveness Flight_Threads SSL_Context
begin

text \<open>
  \<^bold>\<open>The SingleFlight proxy server: a verification library.\<close>

  The program (\<^verbatim>\<open>src/src\<close>, C++ with Boost.Asio) is a proxy between PostgreSQL clients and a database. For each client
  \<^verbatim>\<open>ProxyServer\<close> makes a \<^verbatim>\<open>Session\<close>, which connects to the database, negotiates TLS on both sides and then relays bytes
  in both directions. A simple query is looked up in \<^verbatim>\<open>QueryCache\<close> (L1 in memory, L2 in Redis). If it is not cached,
  \<^verbatim>\<open>SingleFlight\<close> makes the first session that asks the leader; the others wait and are given the leader's response.

  \<^bold>\<open>Theories, in the order of the components.\<close>
  \<^item> \<open>Prelude\<close>: machine types, association lists, text search, decimal text, reachability and the locale \<open>invariant\<close> that every
    step relation of the library interprets.
  \<^item> \<open>LRU_Spec\<close>, \<open>L1_Cache\<close>: an abstract LRU cache with the locale \<open>lru_store\<close>, and \<^verbatim>\<open>getL1\<close>, \<^verbatim>\<open>putL1\<close> and the setters of
    \<^verbatim>\<open>QueryCache.cpp\<close> on the list of nodes and the index of iterators. Shown: the code refines the abstract cache;
    index and list stay consistent between any two critical sections; what is returned, kept and evicted; the one input
    for which \<^verbatim>\<open>putL1\<close> is undefined; that a smaller maximum is not enforced on the entries already there.
  \<^item> \<open>Query_Hash\<close>: \<^verbatim>\<open>hash_query\<close>, with MD5 as a parameter. \<open>Redis_L2\<close>: connection, lookup, store, retry, with hiredis as a
    parameter (the functions it offers, on a world of its own).
  \<^item> \<open>Flight_Spec\<close>, \<open>Single_Flight\<close>: the contract of deduplication as the locale \<open>single_flight\<close>, and \<^verbatim>\<open>SingleFlight.cpp\<close>,
    with flights on a heap because a running call keeps a flight that has left the map.
  \<^item> \<open>Flight_Threads\<close>: the critical sections of \<^verbatim>\<open>doSingleFlight\<close> and \<^verbatim>\<open>notifyResult\<close> interleaved by any number of threads, with what
    holds in every interleaving and two interleavings that go wrong.
  \<^item> \<open>Query_Cache\<close>: the class composed of the parts, its statistics, and bursts of identical calls.
  \<^item> \<open>Session_Packets\<close>, \<open>Session_Model\<close>: packets and error codes; the members of \<^verbatim>\<open>Session\<close>, its methods, one definition per
    completion handler (lambda), the startup dialogues, and what happens when TLS cannot be set up.
  \<^item> \<open>Session_Chains\<close>: every handler continues its own chain of operations and finds the sockets it needs.
  \<^item> \<open>Proxy_System\<close>: all sessions with the operations in flight and the shared cache; the read handlers of the bridge, which
    join and notify flights; the invariant of all reachable states.
  \<^item> \<open>Proxy_Flow\<close>: a query from client to database and back, byte for byte. \<open>Proxy_Liveness\<close>: flights whose leader went away.
  \<^item> \<open>Proxy_Server\<close>: the accept loop and shutdown, composed with the sessions. \<open>Config_Model\<close>: \<^verbatim>\<open>Config.cpp\<close>, with yaml-cpp as a
    parameter. \<open>SSL_Context\<close>: \<^verbatim>\<open>SharedSSLContext.cpp\<close>. \<open>Main_Program\<close>: \<^verbatim>\<open>main.cpp\<close>.
  \<^item> This theory: the program as \<^verbatim>\<open>main\<close> starts it.

  \<^bold>\<open>How state and effects are modelled.\<close> A class is a record with the source's members (prefixed where names would clash); a
  method is a function on it. An exception is the left side of a sum and keeps the state it left; undefined behaviour
  (dereferencing an empty optional or a bad iterator) is \<open>None\<close>. An Asio operation in flight is an
  \<open>async_op\<close> with the handler that will be called; a method returns the operations it starts. \<open>complete\<close> lets an operation
  finish with any error code and any bytes, up to the size of the buffer. \<^verbatim>\<open>std::function\<close> callbacks are values, and
  the caller says how one runs.

  \<^bold>\<open>Bounds.\<close> Buffers have 8192 bytes as in the source, \<^verbatim>\<open>size_t\<close> and the ports have their width, statistics wrap. There is no
  fuel: every loop of the source is bounded by a list or an index and is total here.

  \<^bold>\<open>Granularity.\<close> In \<open>Proxy_System\<close> a handler runs to its end before the next one starts, as with one worker thread.
  \<^verbatim>\<open>main\<close> starts several, and nothing in the source serialises the handlers of one session; what can happen between the
  critical sections of \<^verbatim>\<open>SingleFlight\<close> and of the L1 cache is covered by \<open>Flight_Threads\<close> and \<open>L1_Cache\<close>, races on the plain members of
  a session (such as \<^verbatim>\<open>current_query_\<close>) are not.

  \<^bold>\<open>Not modelled.\<close> Logging; the bodies of Boost.Asio, OpenSSL, MD5, hiredis and yaml-cpp (parameters or operations in flight);
  allocation failures; data races on a hiredis context that \<^verbatim>\<open>getL2\<close> uses
  under a shared lock; build files, the load script and documents.
\<close>

section \<open>The whole program\<close>



end
